theory Spec2Isabelle
  imports Complex_Main "HOL-Library.Char_ord" "HOL-Library.List_Lexorder"
begin

section \<open>Genomic segments, alignments and Python failures\<close>

text \<open>
  The module \<^verbatim>\<open>plastid/genomics/genome_array.py\<close> works on \<^verbatim>\<open>GenomicSegment\<close> values
  (chromosome name, half-open \<^verbatim>\<open>start\<close>/\<^verbatim>\<open>end\<close>, strand) and on numeric buffers. Coordinates
  are Python integers, so they are \<open>int\<close> here; stored values are numpy floats and are
  idealised as \<open>real\<close>. A raised exception is the left summand of a result.
\<close>

datatype strand = Plus | Minus | Unstranded

datatype GenomicSegment =
  GenomicSegment (seg_chrom: string) (seg_start: int) (seg_end: int) (seg_strand: strand)

definition seg_len :: "GenomicSegment \<Rightarrow> int" where
  "seg_len s = seg_end s - seg_start s"

text \<open>
  An alignment as the mapping functions read it: \<^verbatim>\<open>feature.spanning_segment\<close> and
  \<^verbatim>\<open>feature.length\<close>. For an ungapped alignment the two lengths coincide.
\<close>

record feature =
  spanning_segment :: GenomicSegment
  feat_length :: int

definition ungapped :: "feature \<Rightarrow> bool" where
  "ungapped f = (feat_length f = seg_len (spanning_segment f))"

definition alignment :: "string \<Rightarrow> int \<Rightarrow> int \<Rightarrow> strand \<Rightarrow> feature" where
  "alignment c s e d = \<lparr>spanning_segment = GenomicSegment c s e d, feat_length = e - s\<rparr>"

datatype py_error =
  KeyError | AssertionError | ValueError | AttributeError | TypeError
  | ZeroDivisionError | IndexError | NonFinite

datatype warning =
  ReadShorterThanNibble int int
  | ReadShorterThanOffset int int
  | NoOffsetForLength int
  | OffsetLongerThanRead int int
  | NormalizationTemporarilyOff

section \<open>Mapping functions\<close>

text \<open>
  \<^verbatim>\<open>**kwargs\<close> of the mapping functions: each recognised key is present or absent.
  The type of \<^verbatim>\<open>offset\<close> is an integer for three of the rules and a table for
  \<^verbatim>\<open>variable_five_prime_map\<close>, whose keys are read lengths or the string \<^verbatim>\<open>"default"\<close>.
\<close>

record 'o kwargs =
  kw_value :: "real option"
  kw_offset :: "'o option"
  kw_nibble :: "int option"

datatype okey = LenKey int | DefaultKey

type_synonym offset_table = "okey \<Rightarrow> int option"

type_synonym mapped = "warning list \<times> (py_error + (GenomicSegment \<times> real) list)"

definition no_kwargs :: "'o kwargs" where
  "no_kwargs = \<lparr>kw_value = None, kw_offset = None, kw_nibble = None\<rparr>"

definition kw_get :: "'a option \<Rightarrow> 'a \<Rightarrow> 'a" where
  "kw_get v d = (case v of None \<Rightarrow> d | Some x \<Rightarrow> x)"

definition center_map :: "feature \<Rightarrow> int kwargs \<Rightarrow> mapped" where
  "center_map f kw =
     (case kw_nibble kw of
        None \<Rightarrow> ([], Inl KeyError)
      | Some nibble \<Rightarrow>
          let read_length = feat_length f in
          if read_length \<le> 2 * nibble
          then ([ReadShorterThanNibble read_length (2 * nibble)], Inr [])
          else
            let span = spanning_segment f;
                offset = kw_get (kw_offset kw) 0;
                v = kw_get (kw_value kw) 1;
                sign = (if seg_strand span = Minus then - 1 else 1);
                s = seg_start span + nibble + sign * offset;
                e = seg_end span - nibble + sign * offset;
                seg = GenomicSegment (seg_chrom span) s e (seg_strand span)
            in if seg_len seg < 0 then ([], Inl ValueError)
               else if seg_len seg = 0 then ([], Inl ZeroDivisionError)
               else ([], Inr [(seg, v / real_of_int (seg_len seg))]))"

definition five_prime_map :: "feature \<Rightarrow> int kwargs \<Rightarrow> mapped" where
  "five_prime_map f kw =
     (let offset = kw_get (kw_offset kw) 0;
          read_length = feat_length f
      in if offset > read_length
         then ([ReadShorterThanOffset read_length offset], Inr [])
         else
           let v = kw_get (kw_value kw) 1;
               span = spanning_segment f;
               s = (if seg_strand span = Plus \<or> seg_strand span = Unstranded
                    then seg_start span + offset
                    else seg_end span - 1 - offset)
           in ([], Inr [(GenomicSegment (seg_chrom span) s (s + 1) (seg_strand span), v)]))"

definition three_prime_map :: "feature \<Rightarrow> int kwargs \<Rightarrow> mapped" where
  "three_prime_map f kw =
     (let offset = kw_get (kw_offset kw) 0;
          read_length = feat_length f
      in if offset > read_length
         then ([ReadShorterThanOffset read_length offset], Inr [])
         else
           let v = kw_get (kw_value kw) 1;
               span = spanning_segment f;
               s = (if seg_strand span = Plus \<or> seg_strand span = Unstranded
                    then seg_end span - 1 - offset
                    else seg_start span + offset)
           in ([], Inr [(GenomicSegment (seg_chrom span) s (s + 1) (seg_strand span), v)]))"

definition table_get :: "offset_table \<Rightarrow> int \<Rightarrow> int option" where
  "table_get t n = (case t (LenKey n) of Some x \<Rightarrow> Some x | None \<Rightarrow> t DefaultKey)"

definition variable_five_prime_map :: "feature \<Rightarrow> offset_table kwargs \<Rightarrow> mapped" where
  "variable_five_prime_map f kw =
     (let span = spanning_segment f;
          v = kw_get (kw_value kw) 1
      in case kw_offset kw of
           None \<Rightarrow> ([], Inl KeyError)
         | Some t \<Rightarrow>
             let feature_length = feat_length f in
             (case table_get t (seg_len span) of
                None \<Rightarrow> ([NoOffsetForLength feature_length], Inr [])
              | Some offset \<Rightarrow>
                  let ws = (if offset \<ge> feature_length
                            then [OffsetLongerThanRead offset feature_length] else []);
                      s = (if seg_strand span = Plus \<or> seg_strand span = Unstranded
                           then seg_start span + offset
                           else seg_end span - 1 - offset)
                  in (ws, Inr [(GenomicSegment (seg_chrom span) s (s + 1) (seg_strand span), v)])))"

section \<open>Python dictionaries, slices and numpy buffers\<close>

text \<open>
  A Python \<^verbatim>\<open>dict\<close> is an association list in insertion order: \<open>dict_set\<close> overwrites
  the entry of an existing key in place and appends a new key, \<open>dict_item\<close> is \<^verbatim>\<open>d[k]\<close>
  and raises \<^verbatim>\<open>KeyError\<close> on a missing key.
\<close>

fun dict_set :: "('k \<times> 'v) list \<Rightarrow> 'k \<Rightarrow> 'v \<Rightarrow> ('k \<times> 'v) list" where
  "dict_set [] k v = [(k, v)]"
| "dict_set ((k', v') # d) k v =
     (if k' = k then (k, v) # d else (k', v') # dict_set d k v)"

definition dict_keys :: "('k \<times> 'v) list \<Rightarrow> 'k list" where
  "dict_keys d = map fst d"

definition dict_item :: "('k \<times> 'v) list \<Rightarrow> 'k \<Rightarrow> py_error + 'v" where
  "dict_item d k = (case map_of d k of None \<Rightarrow> Inl KeyError | Some v \<Rightarrow> Inr v)"

text \<open>
  Python slice bounds on a sequence of length \<open>n\<close>: a negative bound counts from the end,
  and every bound is clipped to the sequence.
\<close>

definition slice_bound :: "nat \<Rightarrow> int \<Rightarrow> nat" where
  "slice_bound n i = (if i < 0 then nat (max 0 (int n + i)) else min n (nat i))"

definition py_slice :: "'a list \<Rightarrow> int \<Rightarrow> int \<Rightarrow> 'a list" where
  "py_slice xs s e =
     (let a = slice_bound (length xs) s; b = slice_bound (length xs) e
      in take (b - a) (drop a xs))"

text \<open>
  The right-hand side of an assignment \<^verbatim>\<open>buf[start:end] = val\<close>: a scalar, or a numpy
  vector. numpy fills the slice with a scalar, copies a vector of the slice's length,
  broadcasts a vector of length one, and raises \<^verbatim>\<open>ValueError\<close> for any other length.
\<close>

datatype setval = Scalar real | Vector "real list"

definition slice_assign :: "real list \<Rightarrow> int \<Rightarrow> int \<Rightarrow> setval \<Rightarrow> py_error + real list" where
  "slice_assign xs s e v =
     (let a = slice_bound (length xs) s; b = slice_bound (length xs) e; n = b - a
      in case v of
           Scalar c \<Rightarrow> Inr (take a xs @ replicate n c @ drop (a + n) xs)
         | Vector ys \<Rightarrow>
             if length ys = n then Inr (take a xs @ ys @ drop (a + n) xs)
             else if length ys = 1 then Inr (take a xs @ replicate n (hd ys) @ drop (a + n) xs)
             else Inl ValueError)"

text \<open>\<^verbatim>\<open>ndarray.resize(n)\<close>: truncate to \<open>n\<close> entries or pad with zeros up to \<open>n\<close>.\<close>

definition np_resize :: "real list \<Rightarrow> nat \<Rightarrow> real list" where
  "np_resize b n = take n b @ replicate (n - length b) 0"

text \<open>What \<^verbatim>\<open>get(iv)\<close> is compared with after \<^verbatim>\<open>set(iv, v)\<close>: a scalar fills the interval.\<close>

definition expand :: "setval \<Rightarrow> nat \<Rightarrow> real list" where
  "expand v n = (case v of Scalar c \<Rightarrow> replicate n c | Vector ys \<Rightarrow> ys)"

section \<open>The mutable dense array\<close>

text \<open>
  \<^verbatim>\<open>GenomeArray\<close>: \<^verbatim>\<open>_chroms\<close> maps a chromosome name to a dict from strand to buffer;
  \<^verbatim>\<open>_sum\<close> is the cached total (\<^verbatim>\<open>None\<close> when unknown). Keys of \<^verbatim>\<open>__getitem__\<close> and
  \<^verbatim>\<open>__setitem__\<close> are \<^verbatim>\<open>GenomicSegment\<close>s here; the \<^verbatim>\<open>SegmentChain\<close> branch, which delegates
  to code outside this module, is not part of the model.
\<close>

type_synonym strand_dict = "(strand \<times> real list) list"

record genome_array =
  ga_chroms :: "(string \<times> strand_dict) list"
  ga_strands :: "strand list"
  min_chr_size :: nat
  ga_sum :: "real option"
  ga_normalize :: bool

definition MIN_CHR_SIZE :: nat where
  "MIN_CHR_SIZE = 10000000"

definition zero_strands :: "strand list \<Rightarrow> nat \<Rightarrow> strand_dict" where
  "zero_strands strands l = fold (\<lambda>s d. dict_set d s (replicate l 0)) strands []"

definition GenomeArray :: "(string \<times> nat) list \<Rightarrow> strand list \<Rightarrow> nat \<Rightarrow> genome_array" where
  "GenomeArray chr_lengths strands mcs =
     \<lparr>ga_chroms = fold (\<lambda>(c, l) d. dict_set d c (zero_strands strands l)) chr_lengths [],
      ga_strands = strands, min_chr_size = mcs, ga_sum = None, ga_normalize = False\<rparr>"

definition set_sum :: "genome_array \<Rightarrow> real \<Rightarrow> genome_array" where
  "set_sum ga v = ga\<lparr>ga_sum := Some v\<rparr>"

definition set_normalize :: "genome_array \<Rightarrow> bool \<Rightarrow> genome_array" where
  "set_normalize ga v = ga\<lparr>ga_normalize := v\<rparr>"

definition keys :: "genome_array \<Rightarrow> string list" where
  "keys ga = dict_keys (ga_chroms ga)"

fun strand_buffers :: "strand_dict \<Rightarrow> strand list \<Rightarrow> py_error + real list list" where
  "strand_buffers d [] = Inr []"
| "strand_buffers d (s # ss) =
     (case dict_item d s of
        Inl e \<Rightarrow> Inl e
      | Inr b \<Rightarrow> (case strand_buffers d ss of Inl e \<Rightarrow> Inl e | Inr bs \<Rightarrow> Inr (b # bs)))"

fun iterchroms_of :: "(string \<times> strand_dict) list \<Rightarrow> strand list \<Rightarrow> py_error + real list list" where
  "iterchroms_of [] strands = Inr []"
| "iterchroms_of ((c, d) # cs) strands =
     (case strand_buffers d strands of
        Inl e \<Rightarrow> Inl e
      | Inr bs \<Rightarrow>
          (case iterchroms_of cs strands of Inl e \<Rightarrow> Inl e | Inr bss \<Rightarrow> Inr (bs @ bss)))"

definition iterchroms :: "genome_array \<Rightarrow> py_error + real list list" where
  "iterchroms ga = iterchroms_of (ga_chroms ga) (ga_strands ga)"

definition reset_sum :: "genome_array \<Rightarrow> py_error + genome_array" where
  "reset_sum ga =
     (case iterchroms ga of
        Inl e \<Rightarrow> Inl e
      | Inr bs \<Rightarrow> Inr (ga\<lparr>ga_sum := Some (sum_list (map sum_list bs))\<rparr>))"

text \<open>\<^verbatim>\<open>sum()\<close> returns the cached total, computing and caching it first when unknown.\<close>

definition sum_op :: "genome_array \<Rightarrow> py_error + real \<times> genome_array" where
  "sum_op ga =
     (case ga_sum ga of
        Some s \<Rightarrow> Inr (s, ga)
      | None \<Rightarrow>
          (case reset_sum ga of
             Inl e \<Rightarrow> Inl e
           | Inr ga' \<Rightarrow>
               (case ga_sum ga' of None \<Rightarrow> Inl TypeError | Some s \<Rightarrow> Inr (s, ga'))))"

definition py_max :: "nat list \<Rightarrow> py_error + nat" where
  "py_max xs = (case xs of [] \<Rightarrow> Inl ValueError | y # ys \<Rightarrow> Inr (fold max ys y))"

fun lengths_of :: "(string \<times> strand_dict) list \<Rightarrow> strand list \<Rightarrow> py_error + (string \<times> nat) list" where
  "lengths_of [] strands = Inr []"
| "lengths_of ((c, d) # cs) strands =
     (case strand_buffers d strands of
        Inl e \<Rightarrow> Inl e
      | Inr bs \<Rightarrow>
          (case py_max (map length bs) of
             Inl e \<Rightarrow> Inl e
           | Inr m \<Rightarrow>
               (case lengths_of cs strands of
                  Inl e \<Rightarrow> Inl e
                | Inr ls \<Rightarrow> Inr ((c, m) # ls))))"

definition lengths :: "genome_array \<Rightarrow> py_error + (string \<times> nat) list" where
  "lengths ga = lengths_of (ga_chroms ga) (ga_strands ga)"

text \<open>
  The \<^verbatim>\<open>try\<close>/\<^verbatim>\<open>except\<close> block shared by \<^verbatim>\<open>__getitem__\<close> and \<^verbatim>\<open>__setitem__\<close>: the
  assertion \<^verbatim>\<open>end < len(buffer)\<close>; on \<^verbatim>\<open>AssertionError\<close> every strand of the chromosome is
  resized to \<^verbatim>\<open>max(len + 10000, end + 10000)\<close>; on \<^verbatim>\<open>KeyError\<close> the strand must be one of
  the array's strands and an unknown chromosome is created at \<^verbatim>\<open>min_chr_size\<close>.
\<close>

fun grow_strands :: "strand_dict \<Rightarrow> strand list \<Rightarrow> nat \<Rightarrow> py_error + strand_dict" where
  "grow_strands d [] n = Inr d"
| "grow_strands d (s # ss) n =
     (case dict_item d s of
        Inl e \<Rightarrow> Inl e
      | Inr b \<Rightarrow> grow_strands (dict_set d s (np_resize b n)) ss n)"

definition on_key_error :: "genome_array \<Rightarrow> GenomicSegment \<Rightarrow> py_error + genome_array" where
  "on_key_error ga roi =
     (if seg_strand roi \<notin> set (ga_strands ga) then Inl AssertionError
      else if seg_chrom roi \<notin> set (keys ga)
      then Inr (ga\<lparr>ga_chroms := dict_set (ga_chroms ga) (seg_chrom roi)
                     (zero_strands (ga_strands ga) (min_chr_size ga))\<rparr>)
      else Inr ga)"

definition ensure_buffer :: "genome_array \<Rightarrow> GenomicSegment \<Rightarrow> py_error + genome_array" where
  "ensure_buffer ga roi =
     (case dict_item (ga_chroms ga) (seg_chrom roi) of
        Inl e \<Rightarrow> on_key_error ga roi
      | Inr d \<Rightarrow>
          (case dict_item d (seg_strand roi) of
             Inl e \<Rightarrow> on_key_error ga roi
           | Inr b \<Rightarrow>
               if seg_end roi < int (length b) then Inr ga
               else
                 let new_size = nat (max (int (length b) + 10000) (seg_end roi + 10000)) in
                 (case grow_strands d (ga_strands ga) new_size of
                    Inl e \<Rightarrow> Inl e
                  | Inr d' \<Rightarrow>
                      Inr (ga\<lparr>ga_chroms := dict_set (ga_chroms ga) (seg_chrom roi) d'\<rparr>))))"

definition buffer_of :: "genome_array \<Rightarrow> string \<Rightarrow> strand \<Rightarrow> py_error + real list" where
  "buffer_of ga c s =
     (case dict_item (ga_chroms ga) c of Inl e \<Rightarrow> Inl e | Inr d \<Rightarrow> dict_item d s)"

text \<open>
  Reads under normalization are \<^verbatim>\<open>1e6 * vals / self.sum()\<close>. With a zero sum numpy
  yields \<^verbatim>\<open>inf\<close>/\<^verbatim>\<open>nan\<close> entries, which have no real value: \<open>NonFinite\<close>.
\<close>

definition normalized :: "genome_array \<Rightarrow> real list \<Rightarrow> py_error + real list \<times> genome_array" where
  "normalized ga vals =
     (case sum_op ga of
        Inl e \<Rightarrow> Inl e
      | Inr (s, ga') \<Rightarrow>
          if s = 0 \<and> vals \<noteq> [] then Inl NonFinite
          else Inr (map (\<lambda>v. 1000000 * v / s) vals, ga'))"

definition getitem :: "genome_array \<Rightarrow> GenomicSegment \<Rightarrow> bool \<Rightarrow> py_error + real list \<times> genome_array" where
  "getitem ga roi roi_order =
     (case ensure_buffer ga roi of
        Inl e \<Rightarrow> Inl e
      | Inr ga1 \<Rightarrow>
          (case buffer_of ga1 (seg_chrom roi) (seg_strand roi) of
             Inl e \<Rightarrow> Inl e
           | Inr b \<Rightarrow>
               (case (if ga_normalize ga1
                      then normalized ga1 (py_slice b (seg_start roi) (seg_end roi))
                      else Inr (py_slice b (seg_start roi) (seg_end roi), ga1)) of
                  Inl e \<Rightarrow> Inl e
                | Inr (vals, ga2) \<Rightarrow>
                    Inr (if roi_order \<and> seg_strand roi = Minus then rev vals else vals, ga2))))"

definition reversed :: "setval \<Rightarrow> setval" where
  "reversed v = (case v of Scalar c \<Rightarrow> Scalar c | Vector ys \<Rightarrow> Vector (rev ys))"

definition store_buffer :: "genome_array \<Rightarrow> string \<Rightarrow> strand \<Rightarrow> real list \<Rightarrow> py_error + genome_array" where
  "store_buffer ga c s b =
     (case dict_item (ga_chroms ga) c of
        Inl e \<Rightarrow> Inl e
      | Inr d \<Rightarrow> Inr (ga\<lparr>ga_chroms := dict_set (ga_chroms ga) c (dict_set d s b)\<rparr>))"

definition setitem ::
  "genome_array \<Rightarrow> GenomicSegment \<Rightarrow> setval \<Rightarrow> bool \<Rightarrow> warning list \<times> (py_error + genome_array)" where
  "setitem ga seg val roi_order =
     (let old_normalize = ga_normalize ga;
          ws = (if old_normalize then [NormalizationTemporarilyOff] else []);
          ga0 = set_normalize (ga\<lparr>ga_sum := None\<rparr>) False;
          val' = (if seg_strand seg = Minus \<and> roi_order then reversed val else val)
      in (ws,
          case ensure_buffer ga0 seg of
            Inl e \<Rightarrow> Inl e
          | Inr ga1 \<Rightarrow>
              (case buffer_of ga1 (seg_chrom seg) (seg_strand seg) of
                 Inl e \<Rightarrow> Inl e
               | Inr b \<Rightarrow>
                   (case slice_assign b (seg_start seg) (seg_end seg) val' of
                      Inl e \<Rightarrow> Inl e
                    | Inr b' \<Rightarrow>
                        (case store_buffer ga1 (seg_chrom seg) (seg_strand seg) b' of
                           Inl e \<Rightarrow> Inl e
                         | Inr ga2 \<Rightarrow> Inr (set_normalize ga2 old_normalize))))))"

text \<open>A value fits an interval of \<open>n\<close> positions: any scalar, or a vector of length \<open>n\<close>.\<close>

definition fits :: "setval \<Rightarrow> int \<Rightarrow> bool" where
  "fits v n = (case v of Scalar c \<Rightarrow> True | Vector ys \<Rightarrow> int (length ys) = n)"

text \<open>
  \<^verbatim>\<open>GenomeArray()\<close>, built without chromosome lengths, and a two-strand array over chrA
  (200 positions) with the values 5..9 at positions 100..104 of the minus strand.
\<close>


definition ga_fresh :: genome_array where
  "ga_fresh = GenomeArray [] [Plus, Minus] MIN_CHR_SIZE"

definition ga_marked :: genome_array where
  "ga_marked =
     \<lparr>ga_chroms = [(''chrA'', [(Plus, replicate 200 0),
                               (Minus, replicate 100 0 @ [5, 6, 7, 8, 9] @ replicate 95 0)])],
      ga_strands = [Plus, Minus], min_chr_size = MIN_CHR_SIZE, ga_sum = None,
      ga_normalize = False\<rparr>"

text \<open>An array whose raw total is 2,000,000, with the value 4 at position 0 of chrA(+).\<close>

definition ga_norm_demo :: genome_array where
  "ga_norm_demo =
     \<lparr>ga_chroms = [(''chrA'', [(Plus, [4, 1999996, 0]), (Minus, [0, 0, 0])])],
      ga_strands = [Plus, Minus], min_chr_size = MIN_CHR_SIZE, ga_sum = None,
      ga_normalize = False\<rparr>"

text \<open>An offset table with entries for read lengths 28 and 5 and no default.\<close>

definition offsets_demo :: offset_table where
  "offsets_demo = [LenKey 28 \<mapsto> 12, LenKey 5 \<mapsto> 9]"

section \<open>Elementwise combination and equality of dense arrays\<close>

text \<open>Python loops that may raise: a fold that stops at the first exception.\<close>

fun foldM :: "('s \<Rightarrow> 'x \<Rightarrow> py_error + 's) \<Rightarrow> 's \<Rightarrow> 'x list \<Rightarrow> py_error + 's" where
  "foldM f s [] = Inr s"
| "foldM f s (x # xs) = (case f s x of Inl e \<Rightarrow> Inl e | Inr s' \<Rightarrow> foldM f s' xs)"

text \<open>
  \<^verbatim>\<open>set(a) | set(b)\<close> and \<^verbatim>\<open>set(a) & set(b)\<close>, iterated in some order: the order of
  first occurrence is taken.
\<close>

definition union_list :: "'a list \<Rightarrow> 'a list \<Rightarrow> 'a list" where
  "union_list xs ys = remdups (xs @ ys)"

definition inter_list :: "'a list \<Rightarrow> 'a list \<Rightarrow> 'a list" where
  "inter_list xs ys = filter (\<lambda>x. x \<in> set ys) (remdups xs)"

text \<open>
  The operator passed to \<^verbatim>\<open>apply_operation\<close> is a numpy binary operator
  (\<^verbatim>\<open>operator.add\<close>, \<^verbatim>\<open>operator.mul\<close>): it acts entry by entry on two vectors of one length,
  broadcasts a vector of length one, and raises \<^verbatim>\<open>ValueError\<close> on any other pair of lengths.
\<close>

definition broadcast2 :: "(real \<Rightarrow> real \<Rightarrow> real) \<Rightarrow> real list \<Rightarrow> real list \<Rightarrow> py_error + real list" where
  "broadcast2 f xs ys =
     (if length xs = length ys then Inr (map2 f xs ys)
      else if length ys = 1 then Inr (map (\<lambda>x. f x (hd ys)) xs)
      else if length xs = 1 then Inr (map (f (hd xs)) ys)
      else Inl ValueError)"

datatype operand = ArrayOperand genome_array | ScalarOperand real

text \<open>\<^verbatim>\<open>GenomeArray.like(other)\<close>: an all-zero array of \<^verbatim>\<open>other.lengths()\<close> and its strands.\<close>

definition like :: "genome_array \<Rightarrow> py_error + genome_array" where
  "like other =
     (case lengths other of
        Inl e \<Rightarrow> Inl e
      | Inr ls \<Rightarrow> Inr (GenomeArray ls (ga_strands other) MIN_CHR_SIZE))"

definition has_same_dimensions :: "genome_array \<Rightarrow> genome_array \<Rightarrow> py_error + unit" where
  "has_same_dimensions a b =
     (if set (keys a) \<noteq> set (keys b) then Inl AssertionError
      else if ga_strands a \<noteq> ga_strands b then Inl AssertionError
      else case lengths a of
             Inl e \<Rightarrow> Inl e
           | Inr la \<Rightarrow>
               (case lengths b of
                  Inl e \<Rightarrow> Inl e
                | Inr lb \<Rightarrow> if set la = set lb then Inr () else Inl AssertionError))"

text \<open>
  The loop state of \<^verbatim>\<open>apply_operation\<close>: the result under construction, and the two
  operands, which \<^verbatim>\<open>self[seg]\<close> and \<^verbatim>\<open>other[seg]\<close> can change. The two operands are distinct
  objects.
\<close>

type_synonym op_state = "genome_array \<times> genome_array \<times> genome_array"

definition same_step ::
  "(real \<Rightarrow> real \<Rightarrow> real) \<Rightarrow> op_state \<Rightarrow> string \<times> strand \<Rightarrow> py_error + op_state" where
  "same_step f st cs =
     (case st of (new, a, b) \<Rightarrow>
      case cs of (c, s) \<Rightarrow>
      case buffer_of a c s of
        Inl e \<Rightarrow> Inl e
      | Inr buf \<Rightarrow>
          let seg = GenomicSegment c 0 (int (length buf)) s in
          (case getitem a seg True of
             Inl e \<Rightarrow> Inl e
           | Inr (av, a') \<Rightarrow>
               (case getitem b seg True of
                  Inl e \<Rightarrow> Inl e
                | Inr (bv, b') \<Rightarrow>
                    (case broadcast2 f av bv of
                       Inl e \<Rightarrow> Inl e
                     | Inr r \<Rightarrow>
                         (case snd (setitem new seg (Vector r) True) of
                            Inl e \<Rightarrow> Inl e
                          | Inr new' \<Rightarrow> Inr (new', a', b'))))))"

text \<open>
  In mode \<^verbatim>\<open>all\<close> the result is rebuilt over the union of chromosomes and strands with
  \<^verbatim>\<open>GenomeArray({}.fromkeys(...), strands=...)\<close>, so each buffer starts as
  \<^verbatim>\<open>numpy.zeros(None)\<close>, a placeholder that a run without exception overwrites everywhere;
  it is the empty buffer here. A chromosome of one operand only is read as
  \<^verbatim>\<open>self[chrom][strand]\<close>, which fails on the string key with \<^verbatim>\<open>AttributeError\<close>.
\<close>

definition all_placeholder :: "string list \<Rightarrow> strand list \<Rightarrow> genome_array" where
  "all_placeholder chroms strands =
     \<lparr>ga_chroms = fold (\<lambda>c d. dict_set d c (fold (\<lambda>s d'. dict_set d' s []) strands [])) chroms [],
      ga_strands = strands, min_chr_size = MIN_CHR_SIZE, ga_sum = None, ga_normalize = False\<rparr>"

definition all_step ::
  "(real \<Rightarrow> real \<Rightarrow> real) \<Rightarrow> op_state \<Rightarrow> string \<times> strand \<Rightarrow> py_error + op_state" where
  "all_step f st cs =
     (case st of (new, a, b) \<Rightarrow>
      case cs of (c, s) \<Rightarrow>
      if c \<in> set (keys a) \<and> c \<in> set (keys b) then
        (if s \<in> set (ga_strands a) \<and> s \<in> set (ga_strands b) then
           (case buffer_of a c s of
              Inl e \<Rightarrow> Inl e
            | Inr sc \<Rightarrow>
                (case buffer_of b c s of
                   Inl e \<Rightarrow> Inl e
                 | Inr oc \<Rightarrow>
                     let sc' = (if length oc > length sc then np_resize sc (length oc) else sc);
                         oc' = (if length sc > length oc then np_resize oc (length sc) else oc)
                     in (case broadcast2 f sc' oc' of
                           Inl e \<Rightarrow> Inl e
                         | Inr r \<Rightarrow>
                             (case store_buffer new c s r of
                                Inl e \<Rightarrow> Inl e
                              | Inr new' \<Rightarrow> Inr (new', a, b)))))
         else
           (case buffer_of (if s \<in> set (ga_strands a) then a else b) c s of
              Inl e \<Rightarrow> Inl e
            | Inr buf \<Rightarrow>
                (case store_buffer new c s (map (\<lambda>x. f x 0) buf) of
                   Inl e \<Rightarrow> Inl e
                 | Inr new' \<Rightarrow> Inr (new', a, b))))
      else Inl AttributeError)"

definition truncate_step ::
  "(real \<Rightarrow> real \<Rightarrow> real) \<Rightarrow> op_state \<Rightarrow> string \<times> strand \<Rightarrow> py_error + op_state" where
  "truncate_step f st cs =
     (case st of (new, a, b) \<Rightarrow>
      case cs of (c, s) \<Rightarrow>
      case buffer_of a c s of
        Inl e \<Rightarrow> Inl e
      | Inr sc \<Rightarrow>
          (case buffer_of b c s of
             Inl e \<Rightarrow> Inl e
           | Inr oc \<Rightarrow>
               let sc' = (if length sc > length oc then np_resize sc (length oc) else sc);
                   oc' = (if length oc > length sc then np_resize oc (length sc) else oc)
               in (case broadcast2 f sc' oc' of
                     Inl e \<Rightarrow> Inl e
                   | Inr r \<Rightarrow>
                       (case store_buffer new c s r of
                          Inl e \<Rightarrow> Inl e
                        | Inr new' \<Rightarrow> Inr (new', a, b)))))"

definition scalar_step ::
  "(real \<Rightarrow> real \<Rightarrow> real) \<Rightarrow> real \<Rightarrow> genome_array \<Rightarrow> genome_array \<Rightarrow> string \<times> strand
     \<Rightarrow> py_error + genome_array" where
  "scalar_step f k a new cs =
     (case cs of (c, s) \<Rightarrow>
      case buffer_of a c s of
        Inl e \<Rightarrow> Inl e
      | Inr buf \<Rightarrow> store_buffer new c s (map (\<lambda>x. f x k) buf))"

text \<open>
  \<^verbatim>\<open>apply_operation(self, other, func, mode)\<close>. The result holds the new array and the two
  operands as the call leaves them (a scalar operand is returned as it was).
\<close>

definition apply_operation ::
  "genome_array \<Rightarrow> operand \<Rightarrow> (real \<Rightarrow> real \<Rightarrow> real) \<Rightarrow> string
     \<Rightarrow> warning list \<times> (py_error + genome_array \<times> genome_array \<times> operand)" where
  "apply_operation self other f mode =
     (case like self of
        Inl e \<Rightarrow> ([], Inl e)
      | Inr new_array \<Rightarrow>
          let old_normalize = ga_normalize self;
              ws = (if old_normalize then [NormalizationTemporarilyOff] else [])
          in (ws,
              case other of
                ArrayOperand b \<Rightarrow>
                  if mode = ''same'' then
                    (case has_same_dimensions self b of
                       Inl e \<Rightarrow> Inl e
                     | Inr u \<Rightarrow>
                         (case foldM (same_step f) (new_array, self, b)
                                 (List.product (keys self) (ga_strands self)) of
                            Inl e \<Rightarrow> Inl e
                          | Inr (new, a', b') \<Rightarrow>
                              Inr (new, set_normalize a' old_normalize, ArrayOperand b')))
                  else if mode = ''all'' then
                    (let chroms = union_list (keys self) (keys b);
                         strands = union_list (ga_strands self) (ga_strands b)
                     in case foldM (all_step f) (all_placeholder chroms strands, self, b)
                               (List.product chroms strands) of
                          Inl e \<Rightarrow> Inl e
                        | Inr (new, a', b') \<Rightarrow>
                            Inr (new, set_normalize a' old_normalize, ArrayOperand b'))
                  else if mode = ''truncate'' then
                    (let my_strands = inter_list (ga_strands self) (ga_strands b);
                         my_chroms = inter_list (keys self) (keys b)
                     in case foldM (truncate_step f) (new_array, self, b)
                               (List.product my_chroms my_strands) of
                          Inl e \<Rightarrow> Inl e
                        | Inr (new, a', b') \<Rightarrow>
                            Inr (new, set_normalize a' old_normalize, ArrayOperand b'))
                  else Inl ValueError
              | ScalarOperand k \<Rightarrow>
                  (case foldM (scalar_step f k self) new_array
                          (List.product (keys self) (ga_strands self)) of
                     Inl e \<Rightarrow> Inl e
                   | Inr new \<Rightarrow>
                       Inr (new, set_normalize self old_normalize, ScalarOperand k))))"

text \<open>\<^verbatim>\<open>nonzero()\<close>: per chromosome and strand, the ascending indices of nonzero entries.\<close>

definition nonzero_idx :: "real list \<Rightarrow> nat list" where
  "nonzero_idx b = filter (\<lambda>i. b ! i \<noteq> 0) [0..<length b]"

fun nonzero_strands :: "strand_dict \<Rightarrow> strand list \<Rightarrow> (strand \<times> nat list) list
     \<Rightarrow> py_error + (strand \<times> nat list) list" where
  "nonzero_strands d [] acc = Inr acc"
| "nonzero_strands d (s # ss) acc =
     (case dict_item d s of
        Inl e \<Rightarrow> Inl e
      | Inr b \<Rightarrow> nonzero_strands d ss (dict_set acc s (nonzero_idx b)))"

fun nonzero_of :: "(string \<times> strand_dict) list \<Rightarrow> strand list
     \<Rightarrow> py_error + (string \<times> (strand \<times> nat list) list) list" where
  "nonzero_of [] strands = Inr []"
| "nonzero_of ((c, d) # cs) strands =
     (case nonzero_strands d strands [] of
        Inl e \<Rightarrow> Inl e
      | Inr nz \<Rightarrow>
          (case nonzero_of cs strands of Inl e \<Rightarrow> Inl e | Inr rest \<Rightarrow> Inr ((c, nz) # rest)))"

definition nonzero :: "genome_array \<Rightarrow> py_error + (string \<times> (strand \<times> nat list) list) list" where
  "nonzero ga = nonzero_of (ga_chroms ga) (ga_strands ga)"

definition nz_get :: "(string \<times> (strand \<times> nat list) list) list \<Rightarrow> string \<Rightarrow> strand \<Rightarrow> nat list" where
  "nz_get nz c s =
     (case map_of nz c of
        None \<Rightarrow> []
      | Some d \<Rightarrow> (case map_of d s of None \<Rightarrow> [] | Some v \<Rightarrow> v))"

text \<open>
  The body of the loop of \<^verbatim>\<open>__eq__\<close>, with its three exits: \<^verbatim>\<open>return False\<close>, an
  exception, or the next chromosome/strand pair.
\<close>

fun eq_loop :: "(string \<times> strand) list \<Rightarrow> (string \<times> (strand \<times> nat list) list) list
     \<Rightarrow> (string \<times> (strand \<times> nat list) list) list \<Rightarrow> real
     \<Rightarrow> genome_array \<Rightarrow> genome_array \<Rightarrow> py_error + bool" where
  "eq_loop [] snz onz tol a b = Inr True"
| "eq_loop ((c, s) # ps) snz onz tol a b =
     (let self_nonzero_vec = nz_get snz c s;
          other_nonzero_vec = nz_get onz c s
      in if length self_nonzero_vec \<noteq> length other_nonzero_vec then Inr False
         else if self_nonzero_vec \<noteq> other_nonzero_vec then Inr False
         else
           (case self_nonzero_vec of
              [] \<Rightarrow> eq_loop ps snz onz tol a b
            | i # is \<Rightarrow>
                let test_seg = GenomicSegment c (int (fold min is i)) (int (fold max is i)) s in
                (case getitem a test_seg True of
                   Inl e \<Rightarrow> Inl e
                 | Inr (av, a') \<Rightarrow>
                     (case getitem b test_seg True of
                        Inl e \<Rightarrow> Inl e
                      | Inr (bv, b') \<Rightarrow>
                          (case broadcast2 (\<lambda>x y. x - y) av bv of
                             Inl e \<Rightarrow> Inl e
                           | Inr ds \<Rightarrow>
                               if list_all (\<lambda>d. d \<le> tol) ds
                               then eq_loop ps snz onz tol a' b'
                               else Inr False)))))"

definition default_tol :: real where
  "default_tol = 1 / 10 ^ 10"

definition ga_eq :: "genome_array \<Rightarrow> genome_array \<Rightarrow> real \<Rightarrow> py_error + bool" where
  "ga_eq a b tol =
     (case nonzero a of
        Inl e \<Rightarrow> Inl e
      | Inr snz \<Rightarrow>
          (case nonzero b of
             Inl e \<Rightarrow> Inl e
           | Inr onz \<Rightarrow>
               eq_loop (List.product (union_list (keys a) (keys b))
                          (union_list (ga_strands a) (ga_strands b)))
                 snz onz tol a b))"

text \<open>
  Two arrays over disjoint chromosome sets, chrA only and chrB only, each with data on
  the plus strand; and the all-zero array of the same shape over one chromosome.
\<close>

definition ga_a :: genome_array where
  "ga_a =
     \<lparr>ga_chroms = [(''chrA'', [(Plus, [1, 2]), (Minus, [0, 0])])],
      ga_strands = [Plus, Minus], min_chr_size = MIN_CHR_SIZE, ga_sum = None,
      ga_normalize = False\<rparr>"

definition ga_b :: genome_array where
  "ga_b =
     \<lparr>ga_chroms = [(''chrB'', [(Plus, [3, 4]), (Minus, [0, 0])])],
      ga_strands = [Plus, Minus], min_chr_size = MIN_CHR_SIZE, ga_sum = None,
      ga_normalize = False\<rparr>"

definition zeros_over :: "string \<Rightarrow> genome_array" where
  "zeros_over c =
     \<lparr>ga_chroms = [(c, [(Plus, [0, 0]), (Minus, [0, 0])])],
      ga_strands = [Plus, Minus], min_chr_size = MIN_CHR_SIZE, ga_sum = None,
      ga_normalize = False\<rparr>"

text \<open>
  The two-strand array \<^verbatim>\<open>GenomeArray({"chrA": n})\<close>, all zero, and a one-strand array over
  chrA with a given buffer, normalization flag and cached total.
\<close>

definition zeros_array :: "nat \<Rightarrow> genome_array" where
  "zeros_array n =
     \<lparr>ga_chroms = [(''chrA'', [(Plus, replicate n 0), (Minus, replicate n 0)])],
      ga_strands = [Plus, Minus], min_chr_size = MIN_CHR_SIZE, ga_sum = None,
      ga_normalize = False\<rparr>"

definition arr1 :: "real list \<Rightarrow> bool \<Rightarrow> real option \<Rightarrow> genome_array" where
  "arr1 xs nrm tot =
     \<lparr>ga_chroms = [(''chrA'', [(Plus, xs)])], ga_strands = [Plus],
      min_chr_size = MIN_CHR_SIZE, ga_sum = tot, ga_normalize = nrm\<rparr>"

section \<open>The BAM-backed array\<close>

text \<open>
  \<^verbatim>\<open>BAMGenomeArray\<close>: \<^verbatim>\<open>_chr_lengths\<close> (read from the file headers), \<^verbatim>\<open>_chroms\<close> (its sorted
  keys), the normalization flag and the total. Fetching reads from the files, filtering
  them and applying the current mapping function happen outside this module (pysam and
  the mapping factories); \<open>bam_counts\<close> stands for their composition: the count vector that
  \<^verbatim>\<open>self.map_fn(list(reads), roi)\<close> returns for a region, in genome order. \<open>bam_mapped\<close> is
  the files' number of mapped reads, the total that \<^verbatim>\<open>reset_sum\<close> installs.
\<close>

record bam_array =
  bam_chr_lengths :: "(string \<times> nat) list"
  bam_chroms :: "string list"
  bam_counts :: "GenomicSegment \<Rightarrow> real list"
  bam_mapped :: real
  bam_sum :: "real option"
  bam_normalize :: bool

definition bam_strands :: "strand list" where
  "bam_strands = [Plus, Minus, Unstranded]"

definition bam_sum_op :: "bam_array \<Rightarrow> real" where
  "bam_sum_op bam = (case bam_sum bam of None \<Rightarrow> bam_mapped bam | Some s \<Rightarrow> s)"

text \<open>
  \<^verbatim>\<open>BAMGenomeArray.__getitem__(roi, roi_order)\<close>, the count vector of
  \<^verbatim>\<open>get_reads_and_counts\<close>: zeros for an unknown chromosome, else the mapped counts,
  normalized when the flag is set and reversed for a minus-strand region in region order.
\<close>

definition bam_getitem :: "bam_array \<Rightarrow> GenomicSegment \<Rightarrow> bool \<Rightarrow> py_error + real list" where
  "bam_getitem bam roi roi_order =
     (if seg_chrom roi \<notin> set (bam_chroms bam)
      then (if seg_len roi < 0 then Inl ValueError else Inr (replicate (nat (seg_len roi)) 0))
      else
        let count_array = bam_counts bam roi in
        (case (if bam_normalize bam
               then (if bam_sum_op bam = 0 \<and> count_array \<noteq> [] then Inl NonFinite
                     else Inr (map (\<lambda>v. v / bam_sum_op bam * 1000000) count_array))
               else Inr count_array) of
           Inl e \<Rightarrow> Inl e
         | Inr ca \<Rightarrow> Inr (if roi_order \<and> seg_strand roi = Minus then rev ca else ca)))"

definition to_genome_array_step ::
  "bam_array \<Rightarrow> genome_array \<Rightarrow> string \<times> strand \<Rightarrow> py_error + genome_array" where
  "to_genome_array_step bam ga cs =
     (case cs of (c, s) \<Rightarrow>
      case dict_item (bam_chr_lengths bam) c of
        Inl e \<Rightarrow> Inl e
      | Inr l \<Rightarrow>
          let seg = GenomicSegment c 0 (int l - 1) s in
          (case bam_getitem bam seg True of
             Inl e \<Rightarrow> Inl e
           | Inr vals \<Rightarrow> snd (setitem ga seg (Vector vals) True)))"

definition to_genome_array :: "bam_array \<Rightarrow> py_error + genome_array" where
  "to_genome_array bam =
     foldM (to_genome_array_step bam)
       (GenomeArray (bam_chr_lengths bam) bam_strands MIN_CHR_SIZE)
       (List.product (bam_chroms bam) bam_strands)"

section \<open>bedGraph export\<close>

text \<open>
  The written file as a list of lines: the track line with its name and the extra
  key/value pairs sorted by key, then data lines \<^verbatim>\<open>chrom start end value\<close>.
\<close>

datatype bg_line = TrackLine string "(string \<times> string) list" | DataLine string nat nat real

definition track_line :: "string \<Rightarrow> (string \<times> string) list \<Rightarrow> bg_line" where
  "track_line trackname kwargs = TrackLine trackname (sort_key fst kwargs)"

text \<open>
  The scan of \<^verbatim>\<open>GenomeArray.to_bedgraph\<close> over \<^verbatim>\<open>range(nz.min(), nz.max()+1)\<close>: a line is
  written at every change of value, whatever the value left behind; after the loop the
  last run is written up to \<^verbatim>\<open>x+1\<close>.
\<close>

fun ga_scan :: "string \<Rightarrow> real list \<Rightarrow> nat list \<Rightarrow> real \<Rightarrow> nat \<Rightarrow> nat \<Rightarrow> bg_line list" where
  "ga_scan chrom buf [] last_val last_x x_end = [DataLine chrom last_x x_end last_val]"
| "ga_scan chrom buf (x # xs) last_val last_x x_end =
     (let val = buf ! x
      in if val \<noteq> last_val
         then DataLine chrom last_x x last_val # ga_scan chrom buf xs val x x_end
         else ga_scan chrom buf xs last_val last_x x_end)"

text \<open>
  The lines of one chromosome whose buffer has a positive sum; \<^verbatim>\<open>nz.min()\<close> of an empty
  index vector raises \<^verbatim>\<open>ValueError\<close>.
\<close>

definition ga_chrom_lines :: "string \<Rightarrow> real list \<Rightarrow> nat list \<Rightarrow> py_error + bg_line list" where
  "ga_chrom_lines chrom buf nz =
     (case nz of
        [] \<Rightarrow> Inl ValueError
      | i # is \<Rightarrow>
          let lo = fold min is i; hi = fold max is i
          in Inr (ga_scan chrom buf [lo..<hi + 1] 0 0 (hi + 1)))"

definition nz_item :: "(string \<times> (strand \<times> nat list) list) list \<Rightarrow> string \<Rightarrow> strand
     \<Rightarrow> py_error + nat list" where
  "nz_item nz c s = (case dict_item nz c of Inl e \<Rightarrow> Inl e | Inr d \<Rightarrow> dict_item d s)"

text \<open>The body of the loop over chromosomes: nothing is written unless the sum is positive.\<close>

definition ga_buffer_lines :: "(string \<times> (strand \<times> nat list) list) list \<Rightarrow> string \<Rightarrow> strand
     \<Rightarrow> real list \<Rightarrow> py_error + bg_line list" where
  "ga_buffer_lines nz c strand buf =
     (if sum_list buf > 0
      then (case nz_item nz c strand of
              Inl e \<Rightarrow> Inl e
            | Inr nzv \<Rightarrow> ga_chrom_lines c buf nzv)
      else Inr [])"

fun ga_chroms_lines :: "genome_array \<Rightarrow> strand \<Rightarrow> (string \<times> (strand \<times> nat list) list) list
     \<Rightarrow> string list \<Rightarrow> py_error + bg_line list" where
  "ga_chroms_lines ga strand nz [] = Inr []"
| "ga_chroms_lines ga strand nz (c # cs) =
     (case buffer_of ga c strand of
        Inl e \<Rightarrow> Inl e
      | Inr buf \<Rightarrow>
          (case ga_buffer_lines nz c strand buf of
             Inl e \<Rightarrow> Inl e
           | Inr l1 \<Rightarrow>
               (case ga_chroms_lines ga strand nz cs of
                  Inl e \<Rightarrow> Inl e
                | Inr l2 \<Rightarrow> Inr (l1 @ l2))))"

definition ga_to_bedgraph ::
  "genome_array \<Rightarrow> string \<Rightarrow> strand \<Rightarrow> (string \<times> string) list \<Rightarrow> py_error + bg_line list" where
  "ga_to_bedgraph ga trackname strand kwargs =
     (if strand \<notin> set (ga_strands ga) then Inl AssertionError
      else case nonzero ga of
             Inl e \<Rightarrow> Inl e
           | Inr nz \<Rightarrow>
               (case ga_chroms_lines ga strand nz (sort (map fst nz)) of
                  Inl e \<Rightarrow> Inl e
                | Inr ls \<Rightarrow> Inr (track_line trackname kwargs # ls)))"

text \<open>
  The scan of \<^verbatim>\<open>BAMGenomeArray.to_bedgraph\<close> over one window, \<^verbatim>\<open>enumerate(my_counts[1:])\<close>
  with running index \<open>x\<close>: a run is written at a change of value and at the end of the
  window, and only when its value is positive.
\<close>

fun bam_scan :: "string \<Rightarrow> nat \<Rightarrow> real list \<Rightarrow> nat \<Rightarrow> real \<Rightarrow> nat \<Rightarrow> nat \<Rightarrow> bg_line list" where
  "bam_scan chrom my_start [] x last_val genomic_start_x my_end =
     (if last_val > 0 then [DataLine chrom genomic_start_x my_end last_val] else [])"
| "bam_scan chrom my_start (val # vs) x last_val genomic_start_x my_end =
     (if val \<noteq> last_val
      then (if last_val > 0
            then [DataLine chrom genomic_start_x (1 + x + my_start) last_val] else [])
           @ bam_scan chrom my_start vs (Suc x) val (1 + x + my_start) my_end
      else bam_scan chrom my_start vs (Suc x) last_val genomic_start_x my_end)"

definition window_lines :: "string \<Rightarrow> nat \<Rightarrow> nat \<Rightarrow> real list \<Rightarrow> py_error + bg_line list" where
  "window_lines chrom my_start my_end my_counts =
     (if sum_list my_counts > 0 then
        (case my_counts of
           [] \<Rightarrow> Inl IndexError
         | c0 # rest \<Rightarrow> Inr (bam_scan chrom my_start rest 0 c0 my_start my_end))
      else Inr [])"

text \<open>\<^verbatim>\<open>xrange(0, length, window_size)\<close> for a positive window size.\<close>

definition window_starts :: "nat \<Rightarrow> nat \<Rightarrow> nat list" where
  "window_starts l w = map (\<lambda>k. k * w) [0..<(l + w - 1) div w]"

fun bam_windows_lines :: "bam_array \<Rightarrow> string \<Rightarrow> strand \<Rightarrow> nat \<Rightarrow> nat \<Rightarrow> nat list
     \<Rightarrow> py_error + bg_line list" where
  "bam_windows_lines bam chrom strand window_size my_size [] = Inr []"
| "bam_windows_lines bam chrom strand window_size my_size (my_start # starts) =
     (let my_end = min (my_start + window_size) my_size
      in case bam_getitem bam (GenomicSegment chrom (int my_start) (int my_end) strand) False of
           Inl e \<Rightarrow> Inl e
         | Inr my_counts \<Rightarrow>
             (case window_lines chrom my_start my_end my_counts of
                Inl e \<Rightarrow> Inl e
              | Inr l1 \<Rightarrow>
                  (case bam_windows_lines bam chrom strand window_size my_size starts of
                     Inl e \<Rightarrow> Inl e
                   | Inr l2 \<Rightarrow> Inr (l1 @ l2))))"

fun bam_chroms_lines :: "bam_array \<Rightarrow> strand \<Rightarrow> nat \<Rightarrow> string list \<Rightarrow> py_error + bg_line list" where
  "bam_chroms_lines bam strand window_size [] = Inr []"
| "bam_chroms_lines bam strand window_size (c # cs) =
     (case dict_item (bam_chr_lengths bam) c of
        Inl e \<Rightarrow> Inl e
      | Inr l \<Rightarrow>
          (case bam_windows_lines bam c strand window_size l (window_starts l window_size) of
             Inl e \<Rightarrow> Inl e
           | Inr l1 \<Rightarrow>
               (case bam_chroms_lines bam strand window_size cs of
                  Inl e \<Rightarrow> Inl e
                | Inr l2 \<Rightarrow> Inr (l1 @ l2))))"

definition bam_to_bedgraph ::
  "bam_array \<Rightarrow> string \<Rightarrow> strand \<Rightarrow> nat \<Rightarrow> (string \<times> string) list \<Rightarrow> py_error + bg_line list" where
  "bam_to_bedgraph bam trackname strand window_size kwargs =
     (if strand \<notin> set bam_strands then Inl AssertionError
      else if \<not> window_size > 0 then Inl AssertionError
      else case bam_chroms_lines bam strand window_size (sort (bam_chroms bam)) of
             Inl e \<Rightarrow> Inl e
           | Inr ls \<Rightarrow> Inr (track_line trackname kwargs # ls))"

text \<open>
  A BAM-backed array over chrA (length 3) and chrB (length 4): one read counted at
  position 2 of chrA on the plus strand, and the value 1 at every position of chrB(+).
  The unstranded view sees the same reads.
\<close>

definition demo_counts :: "GenomicSegment \<Rightarrow> real list" where
  "demo_counts roi =
     (if seg_strand roi = Minus then replicate (nat (seg_len roi)) 0
      else if seg_chrom roi = ''chrA'' then py_slice [0, 0, 1] (seg_start roi) (seg_end roi)
      else py_slice [1, 1, 1, 1] (seg_start roi) (seg_end roi))"

definition bam_demo :: bam_array where
  "bam_demo =
     \<lparr>bam_chr_lengths = [(''chrA'', 3), (''chrB'', 4)], bam_chroms = [''chrA'', ''chrB''],
      bam_counts = demo_counts, bam_mapped = 5, bam_sum = None, bam_normalize = False\<rparr>"

text \<open>A three-strand dense array over chrA and chrB with the six given buffers.\<close>

definition demo_ga :: "real list \<Rightarrow> real list \<Rightarrow> real list \<Rightarrow> real list \<Rightarrow> real list \<Rightarrow> real list \<Rightarrow> genome_array" where
  "demo_ga ap am au bp bm bu =
     \<lparr>ga_chroms =
        [(''chrA'', [(Plus, ap), (Minus, am), (Unstranded, au)]),
         (''chrB'', [(Plus, bp), (Minus, bm), (Unstranded, bu)])],
      ga_strands = [Plus, Minus, Unstranded], min_chr_size = MIN_CHR_SIZE,
      ga_sum = None, ga_normalize = False\<rparr>"

text \<open>
  The values \<open>cs\<close> are those of the genome positions \<open>s, s+1, ...\<close> (a window starting at
  \<open>s\<close>, or a whole buffer with \<open>s = 0\<close>). The half-open interval \<open>[a, b)\<close> is a maximal
  run of the value \<open>v\<close> within them: non-empty, inside the range, every position holds
  \<open>v\<close>, and the neighbours on both sides that are in the range hold another value.
\<close>

definition is_max_run :: "real list \<Rightarrow> nat \<Rightarrow> nat \<Rightarrow> nat \<Rightarrow> real \<Rightarrow> bool" where
  "is_max_run cs s a b v =
     (s \<le> a \<and> a < b \<and> b \<le> s + length cs
      \<and> (\<forall>i. a \<le> i \<and> i < b \<longrightarrow> cs ! (i - s) = v)
      \<and> (s < a \<longrightarrow> cs ! (a - 1 - s) \<noteq> v)
      \<and> (b < s + length cs \<longrightarrow> cs ! (b - s) \<noteq> v))"

text \<open>
  A BAM-backed array over chrB (length 4) whose counts are sized to the queried region:
  1 at positions 0..3 of the plus strand (and of the unstranded view), 0 elsewhere.
\<close>

definition run_counts :: "GenomicSegment \<Rightarrow> real list" where
  "run_counts roi =
     map (\<lambda>i. if seg_strand roi \<noteq> Minus \<and> 0 \<le> i \<and> i < 4 then 1 else 0)
       [seg_start roi..seg_end roi - 1]"

definition bam_runs :: bam_array where
  "bam_runs =
     \<lparr>bam_chr_lengths = [(''chrB'', 4)], bam_chroms = [''chrB''],
      bam_counts = run_counts, bam_mapped = 4, bam_sum = None, bam_normalize = False\<rparr>"

section \<open>Properties of the mapping functions\<close>

text \<open>
  Claim C2. Five-prime mapping of an ungapped alignment spanning [50,70) with offset 2
  gives the single pair (chrom,52,53,+) with weight 1.0 on the plus strand and
  (chrom,67,68,-) with weight 1.0 on the minus strand; and whenever the offset exceeds the
  read length the alignment is discarded: the result is the empty list, with one warning.
\<close>

theorem five_prime_map_scenario:
  "five_prime_map (alignment c 50 70 Plus) (no_kwargs\<lparr>kw_offset := Some 2\<rparr>)
     = ([], Inr [(GenomicSegment c 52 53 Plus, 1)])
   \<and> five_prime_map (alignment c 50 70 Minus) (no_kwargs\<lparr>kw_offset := Some 2\<rparr>)
     = ([], Inr [(GenomicSegment c 67 68 Minus, 1)])
   \<and> (\<forall>f kw off. kw_offset kw = Some off \<and> off > feat_length f \<longrightarrow>
        five_prime_map f kw = ([ReadShorterThanOffset (feat_length f) off], Inr []))"
  by (simp add: five_prime_map_def alignment_def no_kwargs_def kw_get_def)

theorem five_prime_map_scenario_witness:
  "five_prime_map (alignment ''chrA'' 50 70 Plus) (no_kwargs\<lparr>kw_offset := Some 2\<rparr>)
     = ([], Inr [(GenomicSegment ''chrA'' 52 53 Plus, 1)])
   \<and> five_prime_map (alignment ''chrA'' 50 70 Minus) (no_kwargs\<lparr>kw_offset := Some 21\<rparr>)
     = ([ReadShorterThanOffset 20 21], Inr [])"
proof -
  have h: "kw_offset (no_kwargs\<lparr>kw_offset := Some (21::int)\<rparr>) = Some 21
           \<and> 21 > feat_length (alignment ''chrA'' 50 70 Minus)"
    by (simp add: alignment_def)
  have a: "five_prime_map (alignment ''chrA'' 50 70 Plus) (no_kwargs\<lparr>kw_offset := Some 2\<rparr>)
     = ([], Inr [(GenomicSegment ''chrA'' 52 53 Plus, 1)])"
    using five_prime_map_scenario [of "''chrA''"] by blast
  have "\<forall>f kw off. kw_offset kw = Some off \<and> off > feat_length f \<longrightarrow>
        five_prime_map f kw = ([ReadShorterThanOffset (feat_length f) off], Inr [])"
    using five_prime_map_scenario [of "''chrA''"] by blast
  then have "five_prime_map (alignment ''chrA'' 50 70 Minus) (no_kwargs\<lparr>kw_offset := Some 21\<rparr>)
     = ([ReadShorterThanOffset (feat_length (alignment ''chrA'' 50 70 Minus)) 21], Inr [])"
    using h by blast
  then show ?thesis using a by (simp add: alignment_def)
qed

section \<open>Dictionary and slice lemmas\<close>


lemma map_of_dict_set: "map_of (dict_set d k v) = (map_of d)(k \<mapsto> v)"
  by (induction d k v rule: dict_set.induct) (auto simp: fun_eq_iff)

lemma dict_item_dict_set: "dict_item (dict_set d k v) k' = (if k' = k then Inr v else dict_item d k')"
  by (simp add: dict_item_def map_of_dict_set)

lemma dict_item_Inr_iff: "dict_item d k = Inr v \<longleftrightarrow> map_of d k = Some v"
  by (simp add: dict_item_def split: option.splits)

lemma buffer_of_store_buffer:
  "buffer_of ga c s = Inr b \<Longrightarrow>
   \<exists>ga'. store_buffer ga c s b' = Inr ga' \<and> buffer_of ga' c s = Inr b'
     \<and> ga_strands ga' = ga_strands ga \<and> ga_normalize ga' = ga_normalize ga
     \<and> ga_sum ga' = ga_sum ga \<and> min_chr_size ga' = min_chr_size ga"
  by (auto simp: buffer_of_def store_buffer_def dict_item_dict_set split: sum.splits)

lemma ensure_buffer_present:
  "buffer_of ga (seg_chrom iv) (seg_strand iv) = Inr b \<Longrightarrow> seg_end iv < int (length b) \<Longrightarrow>
   ensure_buffer ga iv = Inr ga"
  by (auto simp: buffer_of_def ensure_buffer_def split: sum.splits)

lemma slice_bound_in: "0 \<le> i \<Longrightarrow> i \<le> int n \<Longrightarrow> slice_bound n i = nat i"
  by (simp add: slice_bound_def)

lemma slice_roundtrip:
  assumes "0 \<le> s" "s \<le> e" "e \<le> int (length xs)"
    and "(case v of Scalar c \<Rightarrow> True | Vector ys \<Rightarrow> int (length ys) = e - s)"
  shows "\<exists>xs'. slice_assign xs s e v = Inr xs' \<and> length xs' = length xs
          \<and> py_slice xs' s e = expand v (nat (e - s))"
  using assms
  by (cases v) (auto simp: slice_assign_def py_slice_def slice_bound_in expand_def Let_def nat_diff_distrib)



lemma expand_reversed: "fits v (int n) \<Longrightarrow> expand (reversed v) n = rev (expand v n)"
  by (cases v) (simp_all add: expand_def reversed_def)

lemma fits_reversed: "fits (reversed v) n = fits v n"
  by (cases v) (simp_all add: fits_def reversed_def)

lemma getitem_present:
  assumes b: "buffer_of ga (seg_chrom iv) (seg_strand iv) = Inr b"
    and e: "seg_end iv < int (length b)" and n: "\<not> ga_normalize ga"
  shows "getitem ga iv ro =
           Inr (if ro \<and> seg_strand iv = Minus then rev (py_slice b (seg_start iv) (seg_end iv))
                else py_slice b (seg_start iv) (seg_end iv), ga)"
  using n by (simp add: getitem_def ensure_buffer_present [OF b e] b)

lemma zero_strands_fold_lookup:
  "map_of (fold (\<lambda>s d. dict_set d s z) strands d0) s
     = (if s \<in> set strands then Some z else map_of d0 s)"
  by (induction strands arbitrary: d0) (auto simp: map_of_dict_set)

lemma zero_strands_lookup:
  "s \<in> set strands \<Longrightarrow> dict_item (zero_strands strands l) s = Inr (replicate l 0)"
  by (simp add: zero_strands_def dict_item_def zero_strands_fold_lookup)

lemma ensure_buffer_first_touch:
  assumes "seg_chrom iv \<notin> set (keys ga)" "seg_strand iv \<in> set (ga_strands ga)"
  shows "\<exists>g1. ensure_buffer ga iv = Inr g1
           \<and> buffer_of g1 (seg_chrom iv) (seg_strand iv) = Inr (replicate (min_chr_size ga) 0)
           \<and> ga_normalize g1 = ga_normalize ga"
proof -
  have "map_of (ga_chroms ga) (seg_chrom iv) = None"
    using assms(1) by (simp add: keys_def dict_keys_def map_of_eq_None_iff)
  then have "ensure_buffer ga iv
      = Inr (ga\<lparr>ga_chroms := dict_set (ga_chroms ga) (seg_chrom iv)
                     (zero_strands (ga_strands ga) (min_chr_size ga))\<rparr>)"
    using assms by (simp add: ensure_buffer_def dict_item_def on_key_error_def)
  moreover have "buffer_of (ga\<lparr>ga_chroms := dict_set (ga_chroms ga) (seg_chrom iv)
                     (zero_strands (ga_strands ga) (min_chr_size ga))\<rparr>)
       (seg_chrom iv) (seg_strand iv) = Inr (replicate (min_chr_size ga) 0)"
    using assms(2) by (simp add: buffer_of_def dict_item_dict_set zero_strands_lookup)
  ultimately show ?thesis by simp
qed

lemma setitem_ensured:
  assumes en: "ensure_buffer (set_normalize (ga\<lparr>ga_sum := None\<rparr>) False) iv = Inr g1"
    and b: "buffer_of g1 (seg_chrom iv) (seg_strand iv) = Inr b"
    and n: "\<not> ga_normalize ga"
    and a: "slice_assign b (seg_start iv) (seg_end iv)
              (if seg_strand iv = Minus \<and> ro then reversed v else v) = Inr b'"
  shows "\<exists>ga1. setitem ga iv v ro = ([], Inr ga1) \<and> \<not> ga_normalize ga1
           \<and> buffer_of ga1 (seg_chrom iv) (seg_strand iv) = Inr b'"
proof -
  from buffer_of_store_buffer [OF b, of b'] obtain g2 where
    g2: "store_buffer g1 (seg_chrom iv) (seg_strand iv) b' = Inr g2"
        "buffer_of g2 (seg_chrom iv) (seg_strand iv) = Inr b'"
    by blast
  have "setitem ga iv v ro = ([], Inr (set_normalize g2 False))"
    using n a g2 by (simp add: setitem_def Let_def en b)
  moreover have "buffer_of (set_normalize g2 False) (seg_chrom iv) (seg_strand iv) = Inr b'"
    using g2(2) by (simp add: buffer_of_def set_normalize_def)
  ultimately show ?thesis by (auto simp: set_normalize_def)
qed

lemma roundtrip_from_buffer:
  assumes en: "ensure_buffer (set_normalize (ga\<lparr>ga_sum := None\<rparr>) False) iv = Inr g1"
    and b: "buffer_of g1 (seg_chrom iv) (seg_strand iv) = Inr b"
    and e: "seg_end iv < int (length b)"
    and r: "0 \<le> seg_start iv" "seg_start iv \<le> seg_end iv"
    and n: "\<not> ga_normalize ga" and f: "fits v (seg_len iv)"
  shows "\<exists>ga1. setitem ga iv v True = ([], Inr ga1)
           \<and> getitem ga1 iv True = Inr (expand v (nat (seg_len iv)), ga1)"
proof -
  let ?v = "if seg_strand iv = Minus \<and> True then reversed v else v"
  let ?n = "nat (seg_len iv)"
  have fv: "fits ?v (seg_len iv)" using f by (simp add: fits_reversed)
  then have "case ?v of Scalar c \<Rightarrow> True | Vector ys \<Rightarrow> int (length ys) = seg_end iv - seg_start iv"
    by (simp only: fits_def seg_len_def)
  with slice_roundtrip [of "seg_start iv" "seg_end iv" b ?v] r e obtain b' where
    b': "slice_assign b (seg_start iv) (seg_end iv) ?v = Inr b'" "length b' = length b"
        "py_slice b' (seg_start iv) (seg_end iv) = expand ?v ?n"
    by (auto simp: seg_len_def)
  from setitem_ensured [OF en b n b'(1)] obtain ga1 where
    g1: "setitem ga iv v True = ([], Inr ga1)" "\<not> ga_normalize ga1"
        "buffer_of ga1 (seg_chrom iv) (seg_strand iv) = Inr b'"
    by auto
  have e': "seg_end iv < int (length b')" using e b'(2) by simp
  have fn: "fits v (int ?n)" using f r by (simp add: seg_len_def)
  have "getitem ga1 iv True = Inr (expand v ?n, ga1)"
    using getitem_present [OF g1(3) e' g1(2), of True] b'(3) expand_reversed [OF fn]
    by simp
  with g1(1) show ?thesis by blast
qed

text \<open>
  Claim C1. Round trip on the dense array, on any strand, with normalization off and
  \<open>v\<close> a scalar or a vector of the interval's length: \<^verbatim>\<open>set(iv, v)\<close> followed by
  \<^verbatim>\<open>get(iv)\<close> returns \<open>v\<close> (a scalar as the vector filled with it). This holds when the
  addressed buffer exists and the interval ends below its length, and also at the first
  touch of a chromosome the array does not know yet (as in an array built without
  chromosome lengths), where the buffers are created at \<^verbatim>\<open>min_chr_size\<close> and the interval ends
  below that size; in both cases no buffer is resized. For a minus-strand interval over
  [100,105), entry 0 of the result is the value stored at position 104 and entry 4 the
  value stored at position 100.
\<close>

theorem set_get_roundtrip:
  "(\<forall>ga iv v b. buffer_of ga (seg_chrom iv) (seg_strand iv) = Inr b \<and> seg_end iv < int (length b)
       \<and> 0 \<le> seg_start iv \<and> seg_start iv \<le> seg_end iv \<and> \<not> ga_normalize ga
       \<and> fits v (seg_len iv)
     \<longrightarrow> (\<exists>ga1. setitem ga iv v True = ([], Inr ga1)
              \<and> getitem ga1 iv True = Inr (expand v (nat (seg_len iv)), ga1)))
   \<and> (\<forall>ga iv v. seg_chrom iv \<notin> set (keys ga) \<and> seg_strand iv \<in> set (ga_strands ga)
       \<and> seg_end iv < int (min_chr_size ga)
       \<and> 0 \<le> seg_start iv \<and> seg_start iv \<le> seg_end iv \<and> \<not> ga_normalize ga
       \<and> fits v (seg_len iv)
     \<longrightarrow> (\<exists>ga1. setitem ga iv v True = ([], Inr ga1)
              \<and> getitem ga1 iv True = Inr (expand v (nat (seg_len iv)), ga1)))
   \<and> (\<forall>ga c b. buffer_of ga c Minus = Inr b \<and> 105 < int (length b) \<and> \<not> ga_normalize ga
     \<longrightarrow> (\<exists>vals. getitem ga (GenomicSegment c 100 105 Minus) True = Inr (vals, ga)
              \<and> vals ! 0 = b ! 104 \<and> vals ! 4 = b ! 100))"
proof (intro conjI allI impI)
  fix ga iv v b
  assume h: "buffer_of ga (seg_chrom iv) (seg_strand iv) = Inr b \<and> seg_end iv < int (length b)
       \<and> 0 \<le> seg_start iv \<and> seg_start iv \<le> seg_end iv \<and> \<not> ga_normalize ga
       \<and> fits v (seg_len iv)"
  let ?g0 = "set_normalize (ga\<lparr>ga_sum := None\<rparr>) False"
  have b0: "buffer_of ?g0 (seg_chrom iv) (seg_strand iv) = Inr b"
    using h by (simp add: buffer_of_def set_normalize_def)
  have e: "seg_end iv < int (length b)" using h by simp
  have en: "ensure_buffer ?g0 iv = Inr ?g0" by (rule ensure_buffer_present [OF b0 e])
  show "\<exists>ga1. setitem ga iv v True = ([], Inr ga1)
              \<and> getitem ga1 iv True = Inr (expand v (nat (seg_len iv)), ga1)"
    by (rule roundtrip_from_buffer [OF en b0 e]) (use h in simp_all)
next
  fix ga iv v
  assume h: "seg_chrom iv \<notin> set (keys ga) \<and> seg_strand iv \<in> set (ga_strands ga)
       \<and> seg_end iv < int (min_chr_size ga)
       \<and> 0 \<le> seg_start iv \<and> seg_start iv \<le> seg_end iv \<and> \<not> ga_normalize ga
       \<and> fits v (seg_len iv)"
  let ?g0 = "set_normalize (ga\<lparr>ga_sum := None\<rparr>) False"
  have k: "seg_chrom iv \<notin> set (keys ?g0)" "seg_strand iv \<in> set (ga_strands ?g0)"
    using h by (simp_all add: keys_def set_normalize_def)
  from ensure_buffer_first_touch [OF k] obtain g1 where
    g1: "ensure_buffer ?g0 iv = Inr g1"
        "buffer_of g1 (seg_chrom iv) (seg_strand iv) = Inr (replicate (min_chr_size ?g0) 0)"
    by blast
  have e: "seg_end iv < int (length (replicate (min_chr_size ?g0) (0::real)))"
    using h by (simp add: set_normalize_def)
  show "\<exists>ga1. setitem ga iv v True = ([], Inr ga1)
              \<and> getitem ga1 iv True = Inr (expand v (nat (seg_len iv)), ga1)"
    by (rule roundtrip_from_buffer [OF g1 e]) (use h in simp_all)
next
  fix ga c b
  assume h: "buffer_of ga c Minus = Inr b \<and> 105 < int (length b) \<and> \<not> ga_normalize ga"
  have "getitem ga (GenomicSegment c 100 105 Minus) True
          = Inr (rev (py_slice b 100 105), ga)"
    using getitem_present [of ga "GenomicSegment c 100 105 Minus" b True] h by simp
  moreover have "py_slice b 100 105 = take 5 (drop 100 b)"
    using h by (simp add: py_slice_def slice_bound_def)
  moreover have l5: "length (take 5 (drop 100 b)) = 5"
    using h by (auto simp: min_def)
  moreover have "rev (take 5 (drop 100 b)) ! 0 = b ! 104" "rev (take 5 (drop 100 b)) ! 4 = b ! 100"
    using h by (simp_all add: rev_nth l5 del: length_take)
  ultimately show "\<exists>vals. getitem ga (GenomicSegment c 100 105 Minus) True = Inr (vals, ga)
              \<and> vals ! 0 = b ! 104 \<and> vals ! 4 = b ! 100"
    by simp
qed

lemma marked_buf:
  "buffer_of ga_marked ''chrA'' Minus = Inr (replicate 100 0 @ [5, 6, 7, 8, 9] @ replicate 95 0)"
  by (simp add: ga_marked_def buffer_of_def dict_item_def)

theorem set_get_roundtrip_witness:
  "(\<exists>ga1. setitem ga_marked (GenomicSegment ''chrA'' 100 105 Minus) (Vector [1, 2, 3, 4, 5]) True
            = ([], Inr ga1)
         \<and> getitem ga1 (GenomicSegment ''chrA'' 100 105 Minus) True = Inr ([1, 2, 3, 4, 5], ga1))
   \<and> (\<exists>ga1. setitem ga_fresh (GenomicSegment ''chrA'' 100 105 Minus) (Vector [1, 2, 3, 4, 5]) True
            = ([], Inr ga1)
         \<and> getitem ga1 (GenomicSegment ''chrA'' 100 105 Minus) True = Inr ([1, 2, 3, 4, 5], ga1))
   \<and> (\<exists>vals. getitem ga_marked (GenomicSegment ''chrA'' 100 105 Minus) True = Inr (vals, ga_marked)
         \<and> vals ! 0 = 9 \<and> vals ! 4 = 5)"
proof -
  let ?iv = "GenomicSegment ''chrA'' 100 105 Minus"
  let ?b = "replicate 100 0 @ [5, 6, 7, 8, 9] @ replicate 95 (0::real)"
  have nm: "\<not> ga_normalize ga_marked" by (simp add: ga_marked_def)
  have h1: "buffer_of ga_marked (seg_chrom ?iv) (seg_strand ?iv) = Inr ?b
       \<and> seg_end ?iv < int (length ?b)
       \<and> 0 \<le> seg_start ?iv \<and> seg_start ?iv \<le> seg_end ?iv \<and> \<not> ga_normalize ga_marked
       \<and> fits (Vector [1, 2, 3, 4, 5]) (seg_len ?iv)"
    using nm by (simp add: marked_buf fits_def seg_len_def)
  have h2: "seg_chrom ?iv \<notin> set (keys ga_fresh) \<and> seg_strand ?iv \<in> set (ga_strands ga_fresh)
       \<and> seg_end ?iv < int (min_chr_size ga_fresh)
       \<and> 0 \<le> seg_start ?iv \<and> seg_start ?iv \<le> seg_end ?iv \<and> \<not> ga_normalize ga_fresh
       \<and> fits (Vector [1, 2, 3, 4, 5]) (seg_len ?iv)"
    by (simp add: ga_fresh_def GenomeArray_def keys_def dict_keys_def MIN_CHR_SIZE_def
          fits_def seg_len_def)
  have h3: "buffer_of ga_marked ''chrA'' Minus = Inr ?b \<and> 105 < int (length ?b)
       \<and> \<not> ga_normalize ga_marked"
    using nm by (simp add: marked_buf)
  from set_get_roundtrip h1 have
    "\<exists>ga1. setitem ga_marked ?iv (Vector [1, 2, 3, 4, 5]) True = ([], Inr ga1)
         \<and> getitem ga1 ?iv True
            = Inr (expand (Vector [1, 2, 3, 4, 5]) (nat (seg_len ?iv)), ga1)"
    by blast
  moreover from set_get_roundtrip h2 have
    "\<exists>ga1. setitem ga_fresh ?iv (Vector [1, 2, 3, 4, 5]) True = ([], Inr ga1)
         \<and> getitem ga1 ?iv True
            = Inr (expand (Vector [1, 2, 3, 4, 5]) (nat (seg_len ?iv)), ga1)"
    by blast
  moreover from set_get_roundtrip h3 have
    "\<exists>vals. getitem ga_marked ?iv True = Inr (vals, ga_marked)
         \<and> vals ! 0 = ?b ! 104 \<and> vals ! 4 = ?b ! 100"
    by blast
  ultimately show ?thesis by (simp add: expand_def nth_append)
qed

section \<open>Normalization and mapping-rule policies\<close>



lemma sum_op_chroms:
  "sum_op ga = Inr (t, ga') \<Longrightarrow> ga' = ga\<lparr>ga_sum := Some t\<rparr>"
  by (auto simp: sum_op_def reset_sum_def split: option.splits sum.splits)

lemma sum_op_set_normalize:
  "sum_op ga = Inr (t, ga') \<Longrightarrow> sum_op (set_normalize ga v) = Inr (t, set_normalize ga' v)"
  by (auto simp: sum_op_def reset_sum_def iterchroms_def set_normalize_def
           split: option.splits sum.splits)

lemma sum_op_uncached:
  "ga_sum ga = None \<Longrightarrow> iterchroms ga = Inr bs \<Longrightarrow>
   sum_op (set_normalize ga v) = Inr (sum_list (map sum_list bs), set_normalize ga v\<lparr>ga_sum := Some (sum_list (map sum_list bs))\<rparr>)"
  by (simp add: sum_op_def reset_sum_def iterchroms_def set_normalize_def)

lemma slice_single:
  "0 \<le> p \<Longrightarrow> p + 1 < int (length b) \<Longrightarrow> py_slice b p (p + 1) = [b ! nat p]"
proof -
  assume h: "0 \<le> p" "p + 1 < int (length b)"
  then have "nat p < length b" by linarith
  then have "take 1 (drop (nat p) b) = [b ! nat p]"
    by (simp add: take_Suc_conv_app_nth hd_drop_conv_nth take_Suc)
  moreover have "slice_bound (length b) p = nat p" "slice_bound (length b) (p + 1) = nat p + 1"
    using h by (simp_all add: slice_bound_def nat_add_distrib)
  ultimately show ?thesis by (simp add: py_slice_def)
qed

text \<open>
  Claim C3. Normalization is a view applied when reading. With a total of 2,000,000 and
  normalization switched on, a position holding the raw value 4 is read as 2 (raw value
  times 1e6 divided by the total), and the read leaves the stored buffers as they were.
  \<^verbatim>\<open>sum()\<close> gives the same total whatever the flag is; with no cached or overridden total
  it is the sum of the raw buffer entries. Toggling the flag changes neither the buffers
  nor the cached total.
\<close>

theorem normalization_is_a_view:
  "(\<forall>ga ga' c s b p. sum_op ga = Inr (2000000, ga') \<and> buffer_of ga c s = Inr b
        \<and> 0 \<le> p \<and> p + 1 < int (length b) \<and> b ! nat p = 4
      \<longrightarrow> getitem (set_normalize ga True) (GenomicSegment c p (p + 1) s) True
            = Inr ([2], set_normalize ga' True)
          \<and> ga_chroms (set_normalize ga' True) = ga_chroms ga)
   \<and> (\<forall>ga v t ga'. sum_op ga = Inr (t, ga')
      \<longrightarrow> sum_op (set_normalize ga v) = Inr (t, set_normalize ga' v))
   \<and> (\<forall>ga v bs. ga_sum ga = None \<and> iterchroms ga = Inr bs
      \<longrightarrow> (\<exists>g. sum_op (set_normalize ga v) = Inr (sum_list (map sum_list bs), g)))
   \<and> (\<forall>ga v. ga_chroms (set_normalize ga v) = ga_chroms ga
          \<and> ga_sum (set_normalize ga v) = ga_sum ga)"
proof (intro conjI allI impI)
  fix ga ga' c s b p
  assume h: "sum_op ga = Inr (2000000, ga') \<and> buffer_of ga c s = Inr b
        \<and> 0 \<le> p \<and> p + 1 < int (length b) \<and> b ! nat p = 4"
  let ?g = "set_normalize ga True"
  let ?iv = "GenomicSegment c p (p + 1) s"
  have b: "buffer_of ?g (seg_chrom ?iv) (seg_strand ?iv) = Inr b"
    using h by (simp add: buffer_of_def set_normalize_def)
  have e: "seg_end ?iv < int (length b)" using h by simp
  have s: "sum_op ?g = Inr (2000000, set_normalize ga' True)"
    using h sum_op_set_normalize by blast
  have sl: "py_slice b p (p + 1) = [4]" using h slice_single [of p b] by simp
  have n: "ga_normalize ?g" by (simp add: set_normalize_def)
  have b2: "buffer_of ?g c s = Inr b" using b by simp
  show "getitem ?g ?iv True = Inr ([2], set_normalize ga' True)"
    using n by (simp add: getitem_def ensure_buffer_present [OF b e] b2 sl normalized_def s)
  show "ga_chroms (set_normalize ga' True) = ga_chroms ga"
    using h sum_op_chroms [of ga 2000000 ga'] by (simp add: set_normalize_def)
next
  fix ga v t ga' assume "sum_op ga = Inr (t, ga')"
  then show "sum_op (set_normalize ga v) = Inr (t, set_normalize ga' v)"
    by (rule sum_op_set_normalize)
next
  fix ga v bs assume "ga_sum ga = None \<and> iterchroms ga = Inr bs"
  then show "\<exists>g. sum_op (set_normalize ga v) = Inr (sum_list (map sum_list bs), g)"
    using sum_op_uncached by blast
next
  fix ga :: genome_array and v
  show "ga_chroms (set_normalize ga v) = ga_chroms ga" by (simp add: set_normalize_def)
  show "ga_sum (set_normalize ga v) = ga_sum ga" by (simp add: set_normalize_def)
qed

lemma norm_demo_sum:
  "sum_op ga_norm_demo = Inr (2000000, ga_norm_demo\<lparr>ga_sum := Some 2000000\<rparr>)"
  by (simp add: sum_op_def reset_sum_def iterchroms_def ga_norm_demo_def dict_item_def)

lemma norm_demo_iter:
  "iterchroms ga_norm_demo = Inr [[4, 1999996, 0], [0, 0, 0]]"
  by (simp add: iterchroms_def ga_norm_demo_def dict_item_def)

theorem normalization_is_a_view_witness:
  "getitem (set_normalize ga_norm_demo True) (GenomicSegment ''chrA'' 0 1 Plus) True
     = Inr ([2], set_normalize (ga_norm_demo\<lparr>ga_sum := Some 2000000\<rparr>) True)
   \<and> sum_op (set_normalize ga_norm_demo True)
     = Inr (2000000, set_normalize (ga_norm_demo\<lparr>ga_sum := Some 2000000\<rparr>) True)
   \<and> (\<exists>g. sum_op (set_normalize ga_norm_demo True) = Inr (2000000, g))"
proof -
  have h1: "sum_op ga_norm_demo = Inr (2000000, ga_norm_demo\<lparr>ga_sum := Some 2000000\<rparr>)
        \<and> buffer_of ga_norm_demo ''chrA'' Plus = Inr [4, 1999996, 0]
        \<and> (0::int) \<le> 0 \<and> 0 + 1 < int (length [4, 1999996, 0 :: real])
        \<and> [4, 1999996, 0 :: real] ! nat 0 = 4"
    by (simp add: norm_demo_sum) (simp add: buffer_of_def ga_norm_demo_def dict_item_def)
  have h3: "ga_sum ga_norm_demo = None \<and> iterchroms ga_norm_demo = Inr [[4, 1999996, 0], [0, 0, 0]]"
    by (simp add: norm_demo_iter) (simp add: ga_norm_demo_def)
  from normalization_is_a_view h1 have
    "getitem (set_normalize ga_norm_demo True) (GenomicSegment ''chrA'' 0 (0 + 1) Plus) True
       = Inr ([2], set_normalize (ga_norm_demo\<lparr>ga_sum := Some 2000000\<rparr>) True)"
    by blast
  moreover from normalization_is_a_view h1 have
    "sum_op (set_normalize ga_norm_demo True)
       = Inr (2000000, set_normalize (ga_norm_demo\<lparr>ga_sum := Some 2000000\<rparr>) True)"
    by blast
  moreover from normalization_is_a_view h3 have
    "\<exists>g. sum_op (set_normalize ga_norm_demo True)
       = Inr (sum_list (map sum_list [[4, 1999996, 0], [0, 0, 0]]), g)"
    by blast
  ultimately show ?thesis by simp
qed

text \<open>
  Claim C6. The claim says every mapping function may be called with its optional
  parameters omitted. \<^verbatim>\<open>center_map\<close> documents \<^verbatim>\<open>nibble\<close> as optional with default
  0 but reads it as \<^verbatim>\<open>kwargs["nibble"]\<close>: called with no keyword arguments on an alignment
  spanning [100,110) it raises \<^verbatim>\<open>KeyError\<close> instead of returning its list.
\<close>

theorem center_map_nibble_omitted:
  "center_map (alignment ''chrA'' 100 110 Plus) no_kwargs = ([], Inl KeyError)"
  by (simp add: center_map_def no_kwargs_def)

text \<open>
  \<^verbatim>\<open>five_prime_map\<close> and \<^verbatim>\<open>three_prime_map\<close> do fall back to \<^verbatim>\<open>offset=0\<close>, \<^verbatim>\<open>value=1.0\<close>.
\<close>

lemma mapping_defaults:
  "0 \<le> feat_length f \<Longrightarrow>
     (\<exists>s. five_prime_map f no_kwargs = ([], Inr [(s, 1)]))
   \<and> (\<exists>s. three_prime_map f no_kwargs = ([], Inr [(s, 1)]))"
  by (simp add: five_prime_map_def three_prime_map_def no_kwargs_def kw_get_def Let_def)

text \<open>
  Claim C7. Given an offset table, \<^verbatim>\<open>variable_five_prime_map\<close> returns the empty list
  exactly when the table has neither the alignment's length nor \<^verbatim>\<open>"default"\<close> as a key (and
  then warns that there is no offset for the length). When an offset is found that is at
  least the read length, it warns and still returns the single one-position segment at
  that offset from the 5' end, with the given value.
\<close>

theorem variable_five_prime_map_policy:
  "(\<forall>f kw t. kw_offset kw = Some t \<longrightarrow>
      (snd (variable_five_prime_map f kw) = Inr []
        \<longleftrightarrow> t (LenKey (seg_len (spanning_segment f))) = None \<and> t DefaultKey = None)
      \<and> (t (LenKey (seg_len (spanning_segment f))) = None \<and> t DefaultKey = None
        \<longrightarrow> fst (variable_five_prime_map f kw) = [NoOffsetForLength (feat_length f)]))
   \<and> (\<forall>f kw t off. kw_offset kw = Some t
        \<and> table_get t (seg_len (spanning_segment f)) = Some off \<and> off \<ge> feat_length f
      \<longrightarrow> variable_five_prime_map f kw
          = ([OffsetLongerThanRead off (feat_length f)],
             Inr [(GenomicSegment (seg_chrom (spanning_segment f))
                     (if seg_strand (spanning_segment f) = Minus
                      then seg_end (spanning_segment f) - 1 - off
                      else seg_start (spanning_segment f) + off)
                     (if seg_strand (spanning_segment f) = Minus
                      then seg_end (spanning_segment f) - off
                      else seg_start (spanning_segment f) + off + 1)
                     (seg_strand (spanning_segment f)),
                   kw_get (kw_value kw) 1)]))"
proof (intro conjI allI impI)
  fix f :: feature and kw :: "offset_table kwargs" and t
  assume "kw_offset kw = Some t"
  then show "(snd (variable_five_prime_map f kw) = Inr [])
      = (t (LenKey (seg_len (spanning_segment f))) = None \<and> t DefaultKey = None)"
    by (auto simp: variable_five_prime_map_def table_get_def Let_def split: option.splits)
next
  fix f :: feature and kw :: "offset_table kwargs" and t
  assume "kw_offset kw = Some t"
    and "t (LenKey (seg_len (spanning_segment f))) = None \<and> t DefaultKey = None"
  then show "fst (variable_five_prime_map f kw) = [NoOffsetForLength (feat_length f)]"
    by (simp add: variable_five_prime_map_def table_get_def Let_def)
next
  fix f :: feature and kw :: "offset_table kwargs" and t off
  assume "kw_offset kw = Some t
        \<and> table_get t (seg_len (spanning_segment f)) = Some off \<and> off \<ge> feat_length f"
  then show "variable_five_prime_map f kw
          = ([OffsetLongerThanRead off (feat_length f)],
             Inr [(GenomicSegment (seg_chrom (spanning_segment f))
                     (if seg_strand (spanning_segment f) = Minus
                      then seg_end (spanning_segment f) - 1 - off
                      else seg_start (spanning_segment f) + off)
                     (if seg_strand (spanning_segment f) = Minus
                      then seg_end (spanning_segment f) - off
                      else seg_start (spanning_segment f) + off + 1)
                     (seg_strand (spanning_segment f)),
                   kw_get (kw_value kw) 1)])"
    by (cases "seg_strand (spanning_segment f)")
       (simp_all add: variable_five_prime_map_def Let_def)
qed


theorem variable_five_prime_map_policy_witness:
  "snd (variable_five_prime_map (alignment ''chrA'' 50 70 Plus)
          (no_kwargs\<lparr>kw_offset := Some offsets_demo\<rparr>)) = Inr []
   \<and> fst (variable_five_prime_map (alignment ''chrA'' 50 70 Plus)
          (no_kwargs\<lparr>kw_offset := Some offsets_demo\<rparr>)) = [NoOffsetForLength 20]
   \<and> variable_five_prime_map (alignment ''chrA'' 50 55 Minus)
          (no_kwargs\<lparr>kw_offset := Some offsets_demo\<rparr>)
     = ([OffsetLongerThanRead 9 5], Inr [(GenomicSegment ''chrA'' 45 46 Minus, 1)])"
proof -
  let ?kw = "no_kwargs\<lparr>kw_offset := Some offsets_demo\<rparr>"
  have k: "kw_offset ?kw = Some offsets_demo" by simp
  have n: "offsets_demo (LenKey (seg_len (spanning_segment (alignment ''chrA'' 50 70 Plus)))) = None
           \<and> offsets_demo DefaultKey = None"
    by (simp add: offsets_demo_def alignment_def seg_len_def)
  have o: "kw_offset ?kw = Some offsets_demo
        \<and> table_get offsets_demo (seg_len (spanning_segment (alignment ''chrA'' 50 55 Minus))) = Some 9
        \<and> 9 \<ge> feat_length (alignment ''chrA'' 50 55 Minus)"
    by (simp add: offsets_demo_def alignment_def seg_len_def table_get_def)
  have "snd (variable_five_prime_map (alignment ''chrA'' 50 70 Plus) ?kw) = Inr []"
    using variable_five_prime_map_policy k n by blast
  moreover have "fst (variable_five_prime_map (alignment ''chrA'' 50 70 Plus) ?kw)
      = [NoOffsetForLength (feat_length (alignment ''chrA'' 50 70 Plus))]"
    using variable_five_prime_map_policy k n by blast
  moreover have "variable_five_prime_map (alignment ''chrA'' 50 55 Minus) ?kw
          = ([OffsetLongerThanRead 9 (feat_length (alignment ''chrA'' 50 55 Minus))],
             Inr [(GenomicSegment (seg_chrom (spanning_segment (alignment ''chrA'' 50 55 Minus)))
                     (if seg_strand (spanning_segment (alignment ''chrA'' 50 55 Minus)) = Minus
                      then seg_end (spanning_segment (alignment ''chrA'' 50 55 Minus)) - 1 - 9
                      else seg_start (spanning_segment (alignment ''chrA'' 50 55 Minus)) + 9)
                     (if seg_strand (spanning_segment (alignment ''chrA'' 50 55 Minus)) = Minus
                      then seg_end (spanning_segment (alignment ''chrA'' 50 55 Minus)) - 9
                      else seg_start (spanning_segment (alignment ''chrA'' 50 55 Minus)) + 9 + 1)
                     (seg_strand (spanning_segment (alignment ''chrA'' 50 55 Minus))),
                   kw_get (kw_value ?kw) 1)])"
    using variable_five_prime_map_policy o by blast
  ultimately show ?thesis
    by (simp add: alignment_def kw_get_def no_kwargs_def)
qed

section \<open>Combination in mode truncate over disjoint chromosome sets\<close>

lemma like_ga_a: "like ga_a = Inr (zeros_over ''chrA'')"
  by (simp add: like_def lengths_def ga_a_def dict_item_def py_max_def GenomeArray_def
        zero_strands_def zeros_over_def numeral_2_eq_2)

lemma like_ga_b: "like ga_b = Inr (zeros_over ''chrB'')"
  by (simp add: like_def lengths_def ga_b_def dict_item_def py_max_def GenomeArray_def
        zero_strands_def zeros_over_def numeral_2_eq_2)

lemma ga_ab_keys: "keys ga_a = [''chrA'']" "keys ga_b = [''chrB'']"
  by (simp_all add: ga_a_def ga_b_def keys_def dict_keys_def)

text \<open>
  Claim C4. In mode \<^verbatim>\<open>truncate\<close> chromosomes not common to both operands are to be
  absent from the result (docstring: "chromosomes or strands not common to both parents
  will be ignored"), so disjoint operands give an array with no chromosome. The code
  computes the common chromosomes but keeps \<^verbatim>\<open>new_array = GenomeArray.like(self)\<close>, which
  mode \<^verbatim>\<open>all\<close> replaces: for an array over chrA and an array over chrB the result has the
  chromosome chrA, zero-filled.
\<close>

theorem truncate_disjoint_keeps_self_chromosomes:
  "set (keys ga_a) \<inter> set (keys ga_b) = {}
   \<and> apply_operation ga_a (ArrayOperand ga_b) (+) ''truncate''
       = ([], Inr (zeros_over ''chrA'', ga_a, ArrayOperand ga_b))
   \<and> keys (zeros_over ''chrA'') = [''chrA'']"
proof -
  have n: "ga_normalize ga_a = False" "set_normalize ga_a False = ga_a"
    by (simp_all add: ga_a_def set_normalize_def)
  have "apply_operation ga_a (ArrayOperand ga_b) (+) ''truncate''
       = ([], Inr (zeros_over ''chrA'', ga_a, ArrayOperand ga_b))"
    by (simp add: apply_operation_def like_ga_a ga_ab_keys inter_list_def n)
  then show ?thesis by (simp add: ga_ab_keys) (simp add: zeros_over_def keys_def dict_keys_def)
qed

text \<open>With the operands exchanged the result has chrB instead: it depends on the order.\<close>

lemma truncate_disjoint_is_asymmetric:
  "apply_operation ga_b (ArrayOperand ga_a) (+) ''truncate''
       = ([], Inr (zeros_over ''chrB'', ga_b, ArrayOperand ga_a))
   \<and> keys (zeros_over ''chrB'') = [''chrB'']"
proof -
  have n: "ga_normalize ga_b = False" "set_normalize ga_b False = ga_b"
    by (simp_all add: ga_b_def set_normalize_def)
  have "apply_operation ga_b (ArrayOperand ga_a) (+) ''truncate''
       = ([], Inr (zeros_over ''chrB'', ga_b, ArrayOperand ga_a))"
    by (simp add: apply_operation_def like_ga_b ga_ab_keys inter_list_def n)
  then show ?thesis by (simp add: zeros_over_def keys_def dict_keys_def)
qed

lemma dict_set_keys: "fst ` set (dict_set d k v) = insert k (fst ` set d)"
  by (induction d k v rule: dict_set.induct) auto

lemma dict_set_entries: "(c, x) \<in> set (dict_set d k v) \<Longrightarrow> (c, x) \<in> set d \<or> (c = k \<and> x = v)"
  by (induction d k v rule: dict_set.induct) (auto split: if_splits)

lemma zero_strands_fold_entries:
  "(s, buf) \<in> set (fold (\<lambda>s d. dict_set d s (replicate l 0)) strands d0) \<Longrightarrow>
   (s, buf) \<in> set d0 \<or> buf = replicate l 0"
  by (induction strands arbitrary: d0) (auto dest: dict_set_entries)

lemma zero_strands_entries: "(s, buf) \<in> set (zero_strands strands l) \<Longrightarrow> buf = replicate l 0"
  using zero_strands_fold_entries [of s buf l strands "[]"] by (simp add: zero_strands_def)

lemma chroms_fold_keys:
  "set (map fst (fold (\<lambda>(c, l) d. dict_set d c (zero_strands strands l)) ls d0))
     = set (map fst d0) \<union> set (map fst ls)"
proof (induction ls arbitrary: d0)
  case Nil
  then show ?case by simp
next
  case (Cons p ls)
  obtain c l where p: "p = (c, l)" by (cases p)
  show ?case using Cons [of "dict_set d0 c (zero_strands strands l)"]
    by (simp add: p dict_set_keys)
qed

lemma chroms_fold_entries:
  "(c, d) \<in> set (fold (\<lambda>(c, l) d. dict_set d c (zero_strands strands l)) ls d0) \<Longrightarrow>
   (c, d) \<in> set d0 \<or> (\<exists>l. d = zero_strands strands l)"
  by (induction ls arbitrary: d0) (auto dest: dict_set_entries)

lemma GenomeArray_keys: "set (keys (GenomeArray ls strands m)) = set (map fst ls)"
  using chroms_fold_keys [of strands ls "[]"]
  by (simp add: keys_def dict_keys_def GenomeArray_def)

lemma GenomeArray_zero:
  assumes "buffer_of (GenomeArray ls strands m) c s = Inr buf"
  shows "buf = replicate (length buf) 0"
proof -
  from assms obtain d where d: "map_of (ga_chroms (GenomeArray ls strands m)) c = Some d"
      "map_of d s = Some buf"
    by (auto simp: buffer_of_def dict_item_def split: option.splits)
  from d(1) have "(c, d) \<in> set (ga_chroms (GenomeArray ls strands m))" by (rule map_of_SomeD)
  then obtain l where "d = zero_strands strands l"
    using chroms_fold_entries [of c d strands ls "[]"] by (auto simp: GenomeArray_def)
  moreover from d(2) have "(s, buf) \<in> set d" by (rule map_of_SomeD)
  ultimately have "buf = replicate l 0" using zero_strands_entries by blast
  then show ?thesis by simp
qed

lemma lengths_of_keys: "lengths_of cs strands = Inr ls \<Longrightarrow> map fst ls = map fst cs"
  by (induction cs strands arbitrary: ls rule: lengths_of.induct)
     (auto split: sum.splits)

lemma like_keys:
  assumes "like a = Inr n"
  shows "set (keys n) = set (keys a)"
proof -
  from assms obtain ls where ls: "lengths a = Inr ls"
      and n: "n = GenomeArray ls (ga_strands a) MIN_CHR_SIZE"
    by (auto simp: like_def split: sum.splits)
  from ls have "map fst ls = map fst (ga_chroms a)"
    by (simp add: lengths_def lengths_of_keys)
  then have "set (map fst ls) = set (keys a)"
    by (simp only: keys_def dict_keys_def)
  then show ?thesis using n GenomeArray_keys [of ls "ga_strands a" MIN_CHR_SIZE]
    by (simp only:)
qed

lemma like_zero: "like a = Inr n \<Longrightarrow> buffer_of n c s = Inr buf \<Longrightarrow> buf = replicate (length buf) 0"
  by (auto simp: like_def dest: GenomeArray_zero split: sum.splits)

lemma inter_list_disjoint: "set xs \<inter> set ys = {} \<Longrightarrow> inter_list xs ys = []"
  by (auto simp: inter_list_def filter_empty_conv)

lemma set_normalize_same: "set_normalize a (ga_normalize a) = a"
  by (simp add: set_normalize_def)

text \<open>
  In general: over disjoint chromosome sets the call returns \<^verbatim>\<open>GenomeArray.like(self)\<close>,
  whose chromosomes are those of \<open>self\<close> and whose buffers are all zero.
\<close>

lemma truncate_disjoint_returns_like:
  "\<forall>a b f n. set (keys a) \<inter> set (keys b) = {} \<and> like a = Inr n \<longrightarrow>
     snd (apply_operation a (ArrayOperand b) f ''truncate'') = Inr (n, a, ArrayOperand b)
     \<and> set (keys n) = set (keys a)
     \<and> (\<forall>c s buf. buffer_of n c s = Inr buf \<longrightarrow> buf = replicate (length buf) 0)"
proof (intro allI impI)
  fix a b f n
  assume h: "set (keys a) \<inter> set (keys b) = {} \<and> like a = Inr n"
  then have "inter_list (keys a) (keys b) = []" by (simp add: inter_list_disjoint)
  then have "snd (apply_operation a (ArrayOperand b) f ''truncate'') = Inr (n, a, ArrayOperand b)"
    using h by (simp add: apply_operation_def Let_def set_normalize_same)
  moreover have "set (keys n) = set (keys a)" using h like_keys by blast
  moreover have "\<forall>c s buf. buffer_of n c s = Inr buf \<longrightarrow> buf = replicate (length buf) 0"
    using h like_zero by blast
  ultimately show "snd (apply_operation a (ArrayOperand b) f ''truncate'') = Inr (n, a, ArrayOperand b)
     \<and> set (keys n) = set (keys a)
     \<and> (\<forall>c s buf. buffer_of n c s = Inr buf \<longrightarrow> buf = replicate (length buf) 0)"
    by blast
qed

section \<open>Combination in mode same and its operands\<close>



lemma np_resize_zeros: "np_resize (replicate k 0) n = replicate n 0"
proof -
  have "take n (replicate k (0::real)) @ replicate (n - k) 0 = replicate (min n k + (n - k)) 0"
    by (simp add: replicate_add)
  moreover have "min n k + (n - k) = n" by simp
  ultimately show ?thesis by (simp add: np_resize_def)
qed

lemma GenomeArray_zeros: "GenomeArray [(''chrA'', n)] [Plus, Minus] MIN_CHR_SIZE = zeros_array n"
  by (simp add: GenomeArray_def zero_strands_def zeros_array_def)

lemma lengths_zeros: "lengths (zeros_array n) = Inr [(''chrA'', n)]"
  by (simp add: lengths_def zeros_array_def dict_item_def py_max_def)

lemma strands_zeros: "ga_strands (zeros_array n) = [Plus, Minus]"
  by (simp add: zeros_array_def)

lemma like_zeros: "like (zeros_array n) = Inr (zeros_array n)"
  by (simp add: like_def lengths_zeros strands_zeros GenomeArray_zeros)

lemma buffer_zeros: "buffer_of (zeros_array n) ''chrA'' s = (if s = Unstranded then Inl KeyError else Inr (replicate n 0))"
  by (cases s) (simp_all add: buffer_of_def zeros_array_def dict_item_def)

lemma getitem_full_zeros:
  "s \<noteq> Unstranded \<Longrightarrow>
   getitem (zeros_array n) (GenomicSegment ''chrA'' 0 (int n) s) True
     = Inr (replicate n 0, zeros_array (n + 10000))"
  by (cases s)
     (simp_all add: getitem_def ensure_buffer_def zeros_array_def dict_item_def np_resize_zeros
        buffer_of_def py_slice_def slice_bound_def nat_add_distrib max_def Let_def)

lemma slice_assign_zeros:
  "slice_assign (replicate (n + 10000) 0) 0 (int n) (Vector (replicate n 0)) = Inr (replicate (n + 10000) 0)"
proof -
  have "replicate n (0::real) @ replicate 10000 0 = replicate (n + 10000) 0"
    by (simp add: replicate_add)
  then show ?thesis by (simp add: slice_assign_def slice_bound_def)
qed

lemma setitem_full_zeros:
  "s \<noteq> Unstranded \<Longrightarrow>
   setitem (zeros_array n) (GenomicSegment ''chrA'' 0 (int n) s) (Vector (replicate n 0)) True
     = ([], Inr (zeros_array (n + 10000)))"
  by (cases s)
     (simp_all add: setitem_def ensure_buffer_def zeros_array_def dict_item_def np_resize_zeros
        buffer_of_def set_normalize_def nat_add_distrib max_def reversed_def
        slice_assign_zeros store_buffer_def Let_def)

lemma same_step_zeros:
  "s \<noteq> Unstranded \<Longrightarrow>
   same_step (+) (zeros_array n, zeros_array n, zeros_array n) (''chrA'', s)
     = Inr (zeros_array (n + 10000), zeros_array (n + 10000), zeros_array (n + 10000))"
  by (simp add: same_step_def buffer_zeros getitem_full_zeros broadcast2_def setitem_full_zeros)

text \<open>
  Claim C5. The claim (and the docstring of \<^verbatim>\<open>apply_operation\<close>: "a new GenomeArray is
  returned, and self is left unmodified") says the operands keep their buffer lengths. In
  mode \<^verbatim>\<open>same\<close> each operand is read over \<^verbatim>\<open>[0, len(buffer))\<close>, and since
  \<^verbatim>\<open>__getitem__\<close> grows a buffer unless \<^verbatim>\<open>end < len(buffer)\<close>, every read resizes all
  strands of the chromosome: two arrays of length 3 leave the call with buffers of length
  20003.
\<close>

theorem same_mode_grows_operands:
  "apply_operation (zeros_array 3) (ArrayOperand (zeros_array 3)) (+) ''same''
     = ([], Inr (zeros_array 20003, zeros_array 20003, ArrayOperand (zeros_array 20003)))
   \<and> buffer_of (zeros_array 3) ''chrA'' Plus = Inr (replicate 3 0)
   \<and> buffer_of (zeros_array 20003) ''chrA'' Plus = Inr (replicate 20003 0)"
proof -
  have k: "keys (zeros_array 3) = [''chrA'']" "ga_strands (zeros_array 3) = [Plus, Minus]"
     "ga_normalize (zeros_array 3) = False"
    by (simp_all add: keys_def dict_keys_def zeros_array_def)
  have d: "has_same_dimensions (zeros_array 3) (zeros_array 3) = Inr ()"
    by (simp add: has_same_dimensions_def lengths_zeros)
  have s1: "same_step (+) (zeros_array 3, zeros_array 3, zeros_array 3) (''chrA'', Plus)
     = Inr (zeros_array 10003, zeros_array 10003, zeros_array 10003)"
    using same_step_zeros [of Plus 3] by simp
  have s2: "same_step (+) (zeros_array 10003, zeros_array 10003, zeros_array 10003) (''chrA'', Minus)
     = Inr (zeros_array 20003, zeros_array 20003, zeros_array 20003)"
    using same_step_zeros [of Minus 10003] by simp
  have n: "set_normalize (zeros_array 20003) False = zeros_array 20003"
    by (simp add: set_normalize_def zeros_array_def)
  show ?thesis
    by (simp add: apply_operation_def like_zeros k d s1 s2 n buffer_zeros)
qed




lemma like_arr1: "like (arr1 [4, 0, 0] True (Some 2000000)) = Inr (arr1 [0, 0, 0] False None)"
  by (simp add: like_def lengths_def arr1_def dict_item_def py_max_def GenomeArray_def
        zero_strands_def numeral_3_eq_3)

lemma getitem_arr1:
  "getitem (arr1 [x, y, z] nrm (Some t)) (GenomicSegment ''chrA'' 0 3 Plus) True
     = (if nrm \<and> t = 0 then Inl NonFinite
        else Inr (if nrm then [1000000 * x / t, 1000000 * y / t, 1000000 * z / t] else [x, y, z],
                  arr1 ([x, y, z] @ replicate 10000 0) nrm (Some t)))"
  by (simp add: getitem_def ensure_buffer_def arr1_def dict_item_def np_resize_def
        buffer_of_def py_slice_def slice_bound_def Let_def normalized_def sum_op_def)

lemma getitem_arr1_none:
  "getitem (arr1 [x, y, z] False None) (GenomicSegment ''chrA'' 0 3 Plus) True
     = Inr ([x, y, z], arr1 ([x, y, z] @ replicate 10000 0) False None)"
  by (simp add: getitem_def ensure_buffer_def arr1_def dict_item_def np_resize_def
        buffer_of_def py_slice_def slice_bound_def Let_def)

lemma setitem_arr1:
  "setitem (arr1 [0, 0, 0] False None) (GenomicSegment ''chrA'' 0 3 Plus) (Vector [x, y, z]) True
     = ([], Inr (arr1 ([x, y, z] @ replicate 10000 0) False None))"
  by (simp add: setitem_def ensure_buffer_def arr1_def dict_item_def np_resize_def
        buffer_of_def set_normalize_def Let_def slice_assign_def slice_bound_def store_buffer_def)

text \<open>
  The same call does not switch normalization off either (the sparse variant does, with
  \<^verbatim>\<open>self.set_normalize(False)\<close>): with the flag on and a total of 2,000,000, the raw value 4
  enters the sum as 2.
\<close>

lemma same_mode_reads_normalized:
  "apply_operation (arr1 [4, 0, 0] True (Some 2000000)) (ArrayOperand (arr1 [0, 0, 0] False None))
      (+) ''same''
     = ([NormalizationTemporarilyOff],
        Inr (arr1 ([2, 0, 0] @ replicate 10000 0) False None,
             arr1 ([4, 0, 0] @ replicate 10000 0) True (Some 2000000),
             ArrayOperand (arr1 ([0, 0, 0] @ replicate 10000 0) False None)))"
proof -
  have d: "has_same_dimensions (arr1 [4, 0, 0] True (Some 2000000)) (arr1 [0, 0, 0] False None) = Inr ()"
    by (simp add: has_same_dimensions_def lengths_def arr1_def keys_def dict_keys_def
          dict_item_def py_max_def)
  have b: "buffer_of (arr1 [4, 0, 0] True (Some 2000000)) ''chrA'' Plus = Inr [4, 0, 0]"
    by (simp add: buffer_of_def arr1_def dict_item_def)
  have s: "same_step (+) (arr1 [0, 0, 0] False None, arr1 [4, 0, 0] True (Some 2000000),
              arr1 [0, 0, 0] False None) (''chrA'', Plus)
      = Inr (arr1 ([2, 0, 0] @ replicate 10000 0) False None,
             arr1 ([4, 0, 0] @ replicate 10000 0) True (Some 2000000),
             arr1 ([0, 0, 0] @ replicate 10000 0) False None)"
    by (simp add: same_step_def b getitem_arr1 getitem_arr1_none broadcast2_def setitem_arr1)
  have k: "keys (arr1 [4, 0, 0] True (Some 2000000)) = [''chrA'']"
     "ga_strands (arr1 [4, 0, 0] True (Some 2000000)) = [Plus]"
     "ga_normalize (arr1 [4, 0, 0] True (Some 2000000))"
    by (simp_all add: keys_def dict_keys_def arr1_def)
  have n: "\<And>xs t. set_normalize (arr1 xs True t) True = arr1 xs True t"
    by (simp add: set_normalize_def arr1_def)
  show ?thesis
    by (simp add: apply_operation_def like_arr1 k d s n)
qed

section \<open>Equality of dense arrays\<close>


lemma nonzero_arr1_2:
  "nonzero (arr1 [x, y] nrm t) = Inr [(''chrA'', [(Plus, nonzero_idx [x, y])])]"
  by (simp add: nonzero_def arr1_def dict_item_def)

lemma nonzero_idx_2: "x \<noteq> 0 \<Longrightarrow> y \<noteq> 0 \<Longrightarrow> nonzero_idx [x, y] = [0, 1]"
  by (simp add: nonzero_idx_def upt_rec [of 0] upt_rec [of 1])

lemma getitem_arr1_first:
  "getitem (arr1 [x, y] False t) (GenomicSegment ''chrA'' 0 1 Plus) True
     = Inr ([x], arr1 [x, y] False t)"
  by (simp add: getitem_def ensure_buffer_def arr1_def dict_item_def
        buffer_of_def py_slice_def slice_bound_def)

text \<open>
  Claim C8. Equality is to hold only when the values at the nonzero positions agree
  within the tolerance (docstring of \<^verbatim>\<open>__eq__\<close>: "identical values at all nonzero positions in
  either array"). The code compares over \<^verbatim>\<open>GenomicSegment(chrom, min, max, strand)\<close>, which
  leaves out the last nonzero position, and tests \<^verbatim>\<open>self - other <= tol\<close> without an
  absolute value: the arrays [1, 2] and [5, 7] over chrA(+) compare equal.
\<close>

theorem eq_ignores_differences:
  "ga_eq (arr1 [1, 2] False None) (arr1 [5, 7] False None) default_tol = Inr True"
proof -
  have k: "keys (arr1 [1, 2] False None) = [''chrA'']" "keys (arr1 [5, 7] False None) = [''chrA'']"
    "ga_strands (arr1 [1, 2] False None) = [Plus]" "ga_strands (arr1 [5, 7] False None) = [Plus]"
    by (simp_all add: keys_def dict_keys_def arr1_def)
  have t: "(- 4 :: real) \<le> default_tol" by (simp add: default_tol_def)
  show ?thesis
    using t
    by (simp add: ga_eq_def nonzero_arr1_2 nonzero_idx_2 k union_list_def nz_get_def
          getitem_arr1_first broadcast2_def)
qed

text \<open>Each slip alone: the last nonzero position is not compared, and the test is one-sided.\<close>

lemma eq_skips_last_nonzero_position:
  "ga_eq (arr1 [1, 2] False None) (arr1 [1, 7] False None) default_tol = Inr True"
proof -
  have k: "keys (arr1 [1, 2] False None) = [''chrA'']" "keys (arr1 [1, 7] False None) = [''chrA'']"
    "ga_strands (arr1 [1, 2] False None) = [Plus]" "ga_strands (arr1 [1, 7] False None) = [Plus]"
    by (simp_all add: keys_def dict_keys_def arr1_def)
  have t: "(0 :: real) \<le> default_tol" by (simp add: default_tol_def)
  show ?thesis
    using t
    by (simp add: ga_eq_def nonzero_arr1_2 nonzero_idx_2 k union_list_def nz_get_def
          getitem_arr1_first broadcast2_def)
qed

lemma eq_is_one_sided:
  "ga_eq (arr1 [1, 2] False None) (arr1 [5, 2] False None) default_tol = Inr True
   \<and> ga_eq (arr1 [5, 2] False None) (arr1 [1, 2] False None) default_tol = Inr False"
proof -
  have k: "\<And>xs. keys (arr1 xs False None) = [''chrA'']"
    "\<And>xs. ga_strands (arr1 xs False None) = [Plus]"
    by (simp_all add: keys_def dict_keys_def arr1_def)
  have t: "(- 4 :: real) \<le> default_tol" "\<not> (4 :: real) \<le> default_tol"
    by (simp_all add: default_tol_def)
  show ?thesis
    using t
    by (simp add: ga_eq_def nonzero_arr1_2 nonzero_idx_2 k union_list_def nz_get_def
          getitem_arr1_first broadcast2_def)
qed

section \<open>Materializing a BAM-backed array\<close>


lemma demo_init:
  "GenomeArray (bam_chr_lengths bam_demo) bam_strands MIN_CHR_SIZE
     = demo_ga [0, 0, 0] [0, 0, 0] [0, 0, 0] [0, 0, 0, 0] [0, 0, 0, 0] [0, 0, 0, 0]"
  by (simp add: bam_demo_def bam_strands_def GenomeArray_def zero_strands_def demo_ga_def
        numeral_3_eq_3 eval_nat_numeral)

lemma demo_last_position:
  "bam_getitem bam_demo (GenomicSegment ''chrA'' 2 3 Plus) True = Inr [1]"
  by (simp add: bam_getitem_def bam_demo_def demo_counts_def py_slice_def slice_bound_def)

lemma set_chrA_Plus:
  "setitem (demo_ga [a0, a1, a2] am au bp bm bu) (GenomicSegment ''chrA'' 0 2 Plus) (Vector [x, y]) True
     = ([], Inr (demo_ga [x, y, a2] am au bp bm bu))"
  by (simp add: setitem_def set_normalize_def ensure_buffer_def buffer_of_def dict_item_def slice_assign_def slice_bound_def store_buffer_def reversed_def demo_ga_def Let_def)

lemma set_chrB_Plus:
  "setitem (demo_ga ap am au [b0, b1, b2, b3] bm bu) (GenomicSegment ''chrB'' 0 3 Plus) (Vector [x, y, z]) True
     = ([], Inr (demo_ga ap am au [x, y, z, b3] bm bu))"
  by (simp add: setitem_def set_normalize_def ensure_buffer_def buffer_of_def dict_item_def slice_assign_def slice_bound_def store_buffer_def reversed_def demo_ga_def Let_def)

lemma set_chrA_Minus:
  "setitem (demo_ga ap [a0, a1, a2] au bp bm bu) (GenomicSegment ''chrA'' 0 2 Minus) (Vector [x, y]) True
     = ([], Inr (demo_ga ap [y, x, a2] au bp bm bu))"
  by (simp add: setitem_def set_normalize_def ensure_buffer_def buffer_of_def dict_item_def slice_assign_def slice_bound_def store_buffer_def reversed_def demo_ga_def Let_def)

lemma set_chrB_Minus:
  "setitem (demo_ga ap am au bp [b0, b1, b2, b3] bu) (GenomicSegment ''chrB'' 0 3 Minus) (Vector [x, y, z]) True
     = ([], Inr (demo_ga ap am au bp [z, y, x, b3] bu))"
  by (simp add: setitem_def set_normalize_def ensure_buffer_def buffer_of_def dict_item_def slice_assign_def slice_bound_def store_buffer_def reversed_def demo_ga_def Let_def)

lemma set_chrA_Unstranded:
  "setitem (demo_ga ap am [a0, a1, a2] bp bm bu) (GenomicSegment ''chrA'' 0 2 Unstranded) (Vector [x, y]) True
     = ([], Inr (demo_ga ap am [x, y, a2] bp bm bu))"
  by (simp add: setitem_def set_normalize_def ensure_buffer_def buffer_of_def dict_item_def slice_assign_def slice_bound_def store_buffer_def reversed_def demo_ga_def Let_def)

lemma set_chrB_Unstranded:
  "setitem (demo_ga ap am au bp bm [b0, b1, b2, b3]) (GenomicSegment ''chrB'' 0 3 Unstranded) (Vector [x, y, z]) True
     = ([], Inr (demo_ga ap am au bp bm [x, y, z, b3]))"
  by (simp add: setitem_def set_normalize_def ensure_buffer_def buffer_of_def dict_item_def slice_assign_def slice_bound_def store_buffer_def reversed_def demo_ga_def Let_def)

lemma get_chrA:
  "bam_getitem bam_demo (GenomicSegment ''chrA'' 0 2 s) True = Inr [0, 0]"
  by (cases s) (simp_all add: bam_getitem_def bam_demo_def demo_counts_def py_slice_def slice_bound_def seg_len_def eval_nat_numeral)

lemma get_chrB:
  "bam_getitem bam_demo (GenomicSegment ''chrB'' 0 3 s) True
     = Inr (if s = Minus then [0, 0, 0] else [1, 1, 1])"
  by (cases s) (simp_all add: bam_getitem_def bam_demo_def demo_counts_def py_slice_def slice_bound_def seg_len_def eval_nat_numeral)

lemma demo_len:
  "dict_item (bam_chr_lengths bam_demo) ''chrA'' = Inr 3"
  "dict_item (bam_chr_lengths bam_demo) ''chrB'' = Inr 4"
  by (simp_all add: bam_demo_def dict_item_def)

lemma demo_pairs:
  "List.product (bam_chroms bam_demo) bam_strands
     = [(''chrA'', Plus), (''chrA'', Minus), (''chrA'', Unstranded),
        (''chrB'', Plus), (''chrB'', Minus), (''chrB'', Unstranded)]"
  by (simp add: bam_demo_def bam_strands_def)

text \<open>
  Claim C10. \<^verbatim>\<open>to_genome_array\<close> is to copy every position from 0 up to the chromosome's
  full length. It queries \<^verbatim>\<open>GenomicSegment(chrom, 0, self.lengths()[chrom]-1, strand)\<close>, and
  the end of a segment is exclusive, so the last position of every chromosome is never
  copied: the BAM-backed array reports 1 at position 2 of chrA(+) and at position 3 of
  chrB(+), and the returned array holds 0 there.
\<close>

theorem to_genome_array_drops_last_position:
  "to_genome_array bam_demo
     = Inr (demo_ga [0, 0, 0] [0, 0, 0] [0, 0, 0] [1, 1, 1, 0] [0, 0, 0, 0] [1, 1, 1, 0])
   \<and> bam_getitem bam_demo (GenomicSegment ''chrA'' 2 3 Plus) True = Inr [1]
   \<and> bam_getitem bam_demo (GenomicSegment ''chrB'' 3 4 Plus) True = Inr [1]"
  by (simp add: to_genome_array_def demo_init demo_pairs to_genome_array_step_def demo_len
        get_chrA get_chrB set_chrA_Plus set_chrA_Minus set_chrA_Unstranded
        set_chrB_Plus set_chrB_Minus set_chrB_Unstranded)
     (simp add: bam_getitem_def bam_demo_def demo_counts_def py_slice_def slice_bound_def seg_len_def)

section \<open>bedGraph export writes runs\<close>


lemma drop_eq_ConsD:
  "drop n xs = y # ys \<Longrightarrow> n < length xs \<and> xs ! n = y \<and> drop (Suc n) xs = ys"
proof -
  assume h: "drop n xs = y # ys"
  then have n: "n < length xs" by (cases "n < length xs") auto
  from Cons_nth_drop_Suc [OF n] h show ?thesis using n by simp
qed

lemma shifted_run:
  assumes "\<forall>j. g \<le> j \<and> j \<le> x \<longrightarrow> cs ! j = (lv::real)"
  shows "\<forall>i. s + g \<le> i \<and> i < s + Suc x \<longrightarrow> cs ! (i - s) = lv"
proof (intro allI impI)
  fix i assume "s + g \<le> i \<and> i < s + Suc x"
  then have "g \<le> i - s \<and> i - s \<le> x" by linarith
  with assms show "cs ! (i - s) = lv" by blast
qed

lemma max_run_intro:
  assumes "g \<le> x" "x < length cs" "\<forall>j. g \<le> j \<and> j \<le> x \<longrightarrow> cs ! j = lv"
    and "0 < g \<longrightarrow> cs ! (g - 1) \<noteq> lv"
    and "Suc x < length cs \<longrightarrow> cs ! Suc x \<noteq> lv"
  shows "is_max_run cs s (s + g) (s + Suc x) lv"
proof -
  have "s < s + g \<longrightarrow> cs ! (s + g - 1 - s) \<noteq> lv"
  proof
    assume "s < s + g"
    then have "0 < g" "s + g - 1 - s = g - 1" by simp_all
    with assms(4) show "cs ! (s + g - 1 - s) \<noteq> lv" by simp
  qed
  moreover have "s + Suc x < s + length cs \<longrightarrow> cs ! (s + Suc x - s) \<noteq> lv"
    using assms(5) by simp
  moreover have "s + g < s + Suc x" "s + Suc x \<le> s + length cs" using assms(1,2) by simp_all
  ultimately show ?thesis
    unfolding is_max_run_def using shifted_run [OF assms(3), of s] by simp
qed

lemma bam_scan_step:
  "bam_scan chrom s (val # vs) x lv gs e =
     (if val \<noteq> lv
      then (if lv > 0 then [DataLine chrom gs (s + Suc x) lv] else [])
           @ bam_scan chrom s vs (Suc x) val (s + Suc x) e
      else bam_scan chrom s vs (Suc x) lv gs e)"
proof -
  have "1 + x + s = s + Suc x" by simp
  then show ?thesis by (simp only: bam_scan.simps)
qed

lemma bam_scan_sound:
  assumes "vs = drop (Suc x) cs" "x < length cs" "g \<le> x"
    and "\<forall>j. g \<le> j \<and> j \<le> x \<longrightarrow> cs ! j = lv"
    and "0 < g \<longrightarrow> cs ! (g - 1) \<noteq> lv"
    and "DataLine c a b v \<in> set (bam_scan chrom s vs x lv (s + g) (s + length cs))"
  shows "c = chrom \<and> v > 0 \<and> is_max_run cs s a b v"
  using assms
proof (induction vs arbitrary: x lv g)
  case Nil
  then have len: "length cs = Suc x" by simp
  from Nil.prems(6) have l: "lv > 0" "c = chrom" "a = s + g" "b = s + length cs" "v = lv"
    by (auto split: if_splits)
  have "is_max_run cs s (s + g) (s + Suc x) lv"
    using max_run_intro [OF Nil.prems(3,2,4,5)] len by simp
  then show ?case using l len by simp
next
  case (Cons val vs')
  from drop_eq_ConsD [OF Cons.prems(1) [symmetric]]
  have d: "Suc x < length cs" "cs ! Suc x = val" "vs' = drop (Suc (Suc x)) cs" by auto
  show ?case
  proof (cases "val = lv")
    case True
    have inv: "\<forall>j. g \<le> j \<and> j \<le> Suc x \<longrightarrow> cs ! j = lv"
      using Cons.prems(4) d(2) True by (auto simp: le_Suc_eq)
    have "DataLine c a b v \<in> set (bam_scan chrom s vs' (Suc x) lv (s + g) (s + length cs))"
      using Cons.prems(6) True unfolding bam_scan_step by simp
    from Cons.IH [OF d(3) d(1) _ inv Cons.prems(5) this] Cons.prems(3)
    show ?thesis by simp
  next
    case False
    from Cons.prems(6) False consider
      (emit) "lv > 0" "DataLine c a b v = DataLine chrom (s + g) (s + Suc x) lv"
      | (rest) "DataLine c a b v \<in> set (bam_scan chrom s vs' (Suc x) val (s + Suc x) (s + length cs))"
      unfolding bam_scan_step by (auto split: if_splits)
    then show ?thesis
    proof cases
      case emit
      have "is_max_run cs s (s + g) (s + Suc x) lv"
        using max_run_intro [OF Cons.prems(3,2,4,5)] d(2) False by simp
      then show ?thesis using emit by simp
    next
      case rest
      have inv: "\<forall>j. Suc x \<le> j \<and> j \<le> Suc x \<longrightarrow> cs ! j = val" using d(2) by auto
      have left: "0 < Suc x \<longrightarrow> cs ! (Suc x - 1) \<noteq> val"
        using Cons.prems(3,4) False by auto
      from Cons.IH [OF d(3) d(1) _ inv left rest] show ?thesis by simp
    qed
  qed
qed

lemma bam_scan_complete:
  assumes "vs = drop (Suc x) cs" "x < length cs" "g \<le> x"
    and "\<forall>j. g \<le> j \<and> j \<le> x \<longrightarrow> cs ! j = lv"
    and "g \<le> i" "i < length cs" "cs ! i > 0"
  shows "\<exists>a b. DataLine chrom a b (cs ! i) \<in> set (bam_scan chrom s vs x lv (s + g) (s + length cs))
           \<and> a \<le> s + i \<and> s + i < b"
  using assms
proof (induction vs arbitrary: x lv g)
  case Nil
  then have len: "length cs = Suc x" by simp
  then have "cs ! i = lv" using Nil.prems by auto
  then show ?case using Nil.prems by auto
next
  case (Cons val vs')
  from drop_eq_ConsD [OF Cons.prems(1) [symmetric]]
  have d: "Suc x < length cs" "cs ! Suc x = val" "vs' = drop (Suc (Suc x)) cs" by auto
  show ?case
  proof (cases "val = lv")
    case True
    have inv: "\<forall>j. g \<le> j \<and> j \<le> Suc x \<longrightarrow> cs ! j = lv"
      using Cons.prems(4) d(2) True by (auto simp: le_Suc_eq)
    have st: "bam_scan chrom s (val # vs') x lv (s + g) (s + length cs)
        = bam_scan chrom s vs' (Suc x) lv (s + g) (s + length cs)"
      using True unfolding bam_scan_step by simp
    have "g \<le> Suc x" using Cons.prems(3) by simp
    from Cons.IH [OF d(3) d(1) this inv Cons.prems(5,6,7)]
    show ?thesis unfolding st .
  next
    case False
    have st: "set (bam_scan chrom s (val # vs') x lv (s + g) (s + length cs))
        = (if lv > 0 then {DataLine chrom (s + g) (s + Suc x) lv} else {})
          \<union> set (bam_scan chrom s vs' (Suc x) val (s + Suc x) (s + length cs))"
      using False unfolding bam_scan_step by simp
    show ?thesis
    proof (cases "i \<le> x")
      case True
      then have v: "cs ! i = lv" using Cons.prems(4,5) by auto
      then have "lv > 0" using Cons.prems(7) by simp
      then have "DataLine chrom (s + g) (s + Suc x) (cs ! i)
          \<in> set (bam_scan chrom s (val # vs') x lv (s + g) (s + length cs))"
        unfolding st using v by simp
      moreover have "s + g \<le> s + i" "s + i < s + Suc x" using True Cons.prems(5) by simp_all
      ultimately show ?thesis by blast
    next
      case i: False
      have inv: "\<forall>j. Suc x \<le> j \<and> j \<le> Suc x \<longrightarrow> cs ! j = val" using d(2) by auto
      from i have "Suc x \<le> i" by simp
      from Cons.IH [OF d(3) d(1) _ inv this Cons.prems(6,7)]
      obtain a b where "DataLine chrom a b (cs ! i)
           \<in> set (bam_scan chrom s vs' (Suc x) val (s + Suc x) (s + length cs))"
           "a \<le> s + i" "s + i < b" by auto
      then show ?thesis unfolding st by blast
    qed
  qed
qed



lemma window_lines_sound:
  assumes "window_lines chrom s e cs = Inr L" "e = s + length cs" "DataLine c a b v \<in> set L"
  shows "c = chrom \<and> v > 0 \<and> is_max_run cs s a b v"
proof -
  from assms(1,3) obtain c0 rest where cs: "cs = c0 # rest"
    and L: "L = bam_scan chrom s rest 0 c0 s e"
    by (auto simp: window_lines_def split: if_splits list.splits)
  have "DataLine c a b v \<in> set (bam_scan chrom s rest 0 c0 (s + 0) (s + length cs))"
    using assms(2,3) L by simp
  then show ?thesis
    by (rule bam_scan_sound [rotated -1]) (simp_all add: cs)
qed

lemma le_sum_list_nonneg:
  "\<forall>v\<in>set cs. (0::real) \<le> v \<Longrightarrow> x \<in> set cs \<Longrightarrow> x \<le> sum_list cs"
proof (induction cs)
  case Nil
  then show ?case by simp
next
  case (Cons y cs)
  have "0 \<le> sum_list cs" using Cons.prems(1) by (simp add: sum_list_nonneg)
  moreover have "0 \<le> y" using Cons.prems(1) by simp
  ultimately show ?case using Cons by auto
qed

lemma window_lines_complete:
  assumes "e = s + length cs" "\<forall>v\<in>set cs. 0 \<le> v" "i < length cs" "cs ! i > 0"
  shows "\<exists>L a b. window_lines chrom s e cs = Inr L \<and> DataLine chrom a b (cs ! i) \<in> set L
           \<and> a \<le> s + i \<and> s + i < b"
proof -
  have "cs ! i \<le> sum_list cs" using assms(2,3) by (simp add: le_sum_list_nonneg)
  then have pos: "sum_list cs > 0" using assms(4) by linarith
  from assms(3) obtain c0 rest where cs: "cs = c0 # rest" by (cases cs) auto
  have w: "window_lines chrom s e cs = Inr (bam_scan chrom s rest 0 c0 (s + 0) (s + length cs))"
    using pos assms(1) unfolding window_lines_def cs by simp
  have "\<exists>a b. DataLine chrom a b (cs ! i)
          \<in> set (bam_scan chrom s rest 0 c0 (s + 0) (s + length cs)) \<and> a \<le> s + i \<and> s + i < b"
    by (rule bam_scan_complete) (use assms(3,4) in \<open>simp_all add: cs\<close>)
  with w show ?thesis by blast
qed

lemma bam_getitem_length:
  assumes "\<forall>roi. length (bam_counts bam roi) = nat (seg_len roi)"
    and "bam_getitem bam roi ro = Inr cs"
  shows "length cs = nat (seg_len roi)"
proof -
  have l: "length (bam_counts bam roi) = nat (seg_len roi)" using assms(1) by blast
  show ?thesis using assms(2) l
    by (auto simp: bam_getitem_def Let_def split: if_splits)
qed

lemma window_starts_less:
  assumes "0 < w" "ms \<in> set (window_starts l w)"
  shows "ms < l"
proof -
  from assms(2) have "ms \<in> (\<lambda>k. k * w) ` {0..<(l + w - 1) div w}"
    by (simp only: window_starts_def set_map set_upt)
  then obtain k where k: "ms = k * w" "k \<in> {0..<(l + w - 1) div w}"
    by (rule imageE)
  then have "Suc k \<le> (l + w - 1) div w" by simp
  then have "Suc k * w \<le> l + w - 1"
    using assms(1) by (simp only: less_eq_div_iff_mult_less_eq)
  then have "k * w + w \<le> l + w - 1" by simp
  then show ?thesis using assms(1) k(1) by linarith
qed

lemma bam_windows_lines_sound:
  assumes "\<forall>roi. length (bam_counts bam roi) = nat (seg_len roi)"
    and "bam_windows_lines bam chrom strand w l starts = Inr L"
    and "\<forall>ms\<in>set starts. ms < l"
    and "DataLine c a b v \<in> set L"
  shows "\<exists>ms\<in>set starts. \<exists>cs.
           bam_getitem bam (GenomicSegment chrom (int ms) (int (min (ms + w) l)) strand) False = Inr cs
           \<and> c = chrom \<and> v > 0 \<and> is_max_run cs ms a b v"
  using assms(2,3,4)
proof (induction starts arbitrary: L)
  case Nil
  then show ?case by simp
next
  case (Cons ms starts)
  let ?me = "min (ms + w) l"
  from Cons.prems(1) obtain cs l1 l2 where
    g: "bam_getitem bam (GenomicSegment chrom (int ms) (int ?me) strand) False = Inr cs"
    and w: "window_lines chrom ms ?me cs = Inr l1"
    and r: "bam_windows_lines bam chrom strand w l starts = Inr l2"
    and L: "L = l1 @ l2"
    by (auto simp: Let_def split: sum.splits)
  from Cons.prems(3) L consider (here) "DataLine c a b v \<in> set l1" | (later) "DataLine c a b v \<in> set l2"
    by auto
  then show ?case
  proof cases
    case here
    have "ms < l" using Cons.prems(2) by simp
    then have "ms \<le> ?me" by simp
    moreover have "length cs = nat (int ?me - int ms)"
      using bam_getitem_length [OF assms(1) g] by (simp add: seg_len_def)
    ultimately have "?me = ms + length cs" by linarith
    from window_lines_sound [OF w this here] g show ?thesis by auto
  next
    case later
    from Cons.IH [OF r _ later] Cons.prems(2) show ?thesis by auto
  qed
qed

lemma bam_chroms_lines_sound:
  assumes "\<forall>roi. length (bam_counts bam roi) = nat (seg_len roi)" "0 < w"
    and "bam_chroms_lines bam strand w chroms = Inr L"
    and "DataLine c a b v \<in> set L"
  shows "c \<in> set chroms \<and> (\<exists>l ms cs. dict_item (bam_chr_lengths bam) c = Inr l
           \<and> ms \<in> set (window_starts l w)
           \<and> bam_getitem bam (GenomicSegment c (int ms) (int (min (ms + w) l)) strand) False = Inr cs
           \<and> v > 0 \<and> is_max_run cs ms a b v)"
  using assms(3,4)
proof (induction chroms arbitrary: L)
  case Nil
  then show ?case by simp
next
  case (Cons ch chroms)
  from Cons.prems(1) obtain l l1 l2 where
    len: "dict_item (bam_chr_lengths bam) ch = Inr l"
    and w: "bam_windows_lines bam ch strand w l (window_starts l w) = Inr l1"
    and r: "bam_chroms_lines bam strand w chroms = Inr l2"
    and L: "L = l1 @ l2"
    by (auto split: sum.splits)
  from Cons.prems(2) L consider (here) "DataLine c a b v \<in> set l1" | (later) "DataLine c a b v \<in> set l2"
    by auto
  then show ?case
  proof cases
    case here
    have "\<forall>ms\<in>set (window_starts l w). ms < l" using window_starts_less [OF assms(2)] by blast
    from bam_windows_lines_sound [OF assms(1) w this here] len show ?thesis by auto
  next
    case later
    from Cons.IH [OF r later] show ?thesis by auto
  qed
qed



lemma max_run0_intro:
  assumes "g < x" "x \<le> length buf" "\<forall>j. g \<le> j \<and> j < x \<longrightarrow> buf ! j = lv"
    and "0 < g \<longrightarrow> buf ! (g - 1) \<noteq> lv"
    and "x < length buf \<longrightarrow> buf ! x \<noteq> lv"
  shows "is_max_run buf 0 g x lv"
  using assms by (simp add: is_max_run_def)

lemma ga_scan_sound:
  assumes "x0 \<le> h" "h \<le> length buf" "g \<le> x0" "g < x0 \<or> (x0 = 0 \<and> lv = 0)"
    and "\<forall>j. g \<le> j \<and> j < x0 \<longrightarrow> buf ! j = lv"
    and "0 < g \<longrightarrow> buf ! (g - 1) \<noteq> lv"
    and "\<forall>j. h \<le> j \<and> j < length buf \<longrightarrow> buf ! j = 0"
    and "DataLine c a b v \<in> set (ga_scan chrom buf [x0..<h] lv g h)" "v \<noteq> 0"
  shows "c = chrom \<and> is_max_run buf 0 a b v"
  using assms
proof (induction "h - x0" arbitrary: x0 lv g)
  case 0
  then have x: "x0 = h" by simp
  with "0.prems"(8) have l: "c = chrom" "a = g" "b = h" "v = lv" by simp_all
  have "g < h" using "0.prems"(4,9) l x by auto
  moreover have "h < length buf \<longrightarrow> buf ! h \<noteq> lv" using "0.prems"(7,9) l by auto
  ultimately have "is_max_run buf 0 g h lv"
    using max_run0_intro [of g h buf lv] "0.prems"(2,5,6) x by simp
  then show ?case using l by simp
next
  case (Suc n)
  then have lt: "x0 < h" by simp
  then have u: "[x0..<h] = x0 # [Suc x0..<h]" by (simp add: upt_conv_Cons)
  have n: "n = h - Suc x0" using Suc.hyps(2) by simp
  show ?case
  proof (cases "buf ! x0 = lv")
    case True
    have inv: "\<forall>j. g \<le> j \<and> j < Suc x0 \<longrightarrow> buf ! j = lv"
      using Suc.prems(5) True by (auto simp: less_Suc_eq)
    have m: "DataLine c a b v \<in> set (ga_scan chrom buf [Suc x0..<h] lv g h)"
      using Suc.prems(8) True unfolding u by simp
    show ?thesis
      by (rule Suc.hyps(1) [OF n _ Suc.prems(2) _ _ inv Suc.prems(6,7) m Suc.prems(9)])
         (use lt Suc.prems(3) in simp_all)
  next
    case False
    from Suc.prems(8) False consider
      (emit) "DataLine c a b v = DataLine chrom g x0 lv"
      | (rest) "DataLine c a b v \<in> set (ga_scan chrom buf [Suc x0..<h] (buf ! x0) x0 h)"
      unfolding u by (auto simp: Let_def)
    then show ?thesis
    proof cases
      case emit
      then have l: "c = chrom" "a = g" "b = x0" "v = lv" by simp_all
      have "g < x0" using Suc.prems(4,9) l by auto
      moreover have "x0 \<le> length buf" "x0 < length buf \<longrightarrow> buf ! x0 \<noteq> lv"
        using lt Suc.prems(2) False by simp_all
      ultimately have "is_max_run buf 0 g x0 lv"
        using max_run0_intro [of g x0 buf lv] Suc.prems(5,6) by simp
      then show ?thesis using l by simp
    next
      case rest
      have inv: "\<forall>j. x0 \<le> j \<and> j < Suc x0 \<longrightarrow> buf ! j = buf ! x0"
        by (auto simp: less_Suc_eq_le)
      have left: "0 < x0 \<longrightarrow> buf ! (x0 - 1) \<noteq> buf ! x0"
      proof
        assume p: "0 < x0"
        then have "g < x0" using Suc.prems(4) by auto
        then have "buf ! (x0 - 1) = lv" using Suc.prems(5) p by auto
        then show "buf ! (x0 - 1) \<noteq> buf ! x0" using False by simp
      qed
      show ?thesis
        by (rule Suc.hyps(1) [OF n _ Suc.prems(2) _ _ inv left Suc.prems(7) rest Suc.prems(9)])
           (use lt in simp_all)
    qed
  qed
qed

lemma nonzero_idx_set: "set (nonzero_idx buf) = {i. i < length buf \<and> buf ! i \<noteq> 0}"
  by (auto simp: nonzero_idx_def)

lemma nz_bounds:
  assumes "nonzero_idx buf = i # is"
  shows "fold max is i < length buf"
    and "\<forall>j. j < fold min is i \<longrightarrow> buf ! j = 0"
    and "\<forall>j. fold max is i < j \<and> j < length buf \<longrightarrow> buf ! j = 0"
    and "fold min is i \<le> fold max is i"
proof -
  let ?S = "set (nonzero_idx buf)"
  have lo: "fold min is i = Min ?S" and hi: "fold max is i = Max ?S"
    unfolding assms by (simp_all only: Min.set_eq_fold Max.set_eq_fold)
  have ne: "?S \<noteq> {}" "finite ?S" unfolding assms by simp_all
  have "Max ?S \<in> ?S" using ne(2) ne(1) by (rule Max_in)
  then have mx: "Max ?S < length buf" by (simp add: nonzero_idx_set)
  have "Min ?S \<in> ?S" using ne(2) ne(1) by (rule Min_in)
  then have mn: "Min ?S < length buf" by (simp add: nonzero_idx_set)
  show "fold max is i < length buf" using mx hi by simp
  show "\<forall>j. j < fold min is i \<longrightarrow> buf ! j = 0"
  proof (intro allI impI)
    fix j assume j: "j < fold min is i"
    show "buf ! j = 0"
    proof (rule ccontr)
      assume "buf ! j \<noteq> 0"
      then have "j \<in> ?S" using j mn lo by (simp add: nonzero_idx_set)
      then have "Min ?S \<le> j" using ne by simp
      then show False using j lo by simp
    qed
  qed
  show "\<forall>j. fold max is i < j \<and> j < length buf \<longrightarrow> buf ! j = 0"
  proof (intro allI impI)
    fix j assume j: "fold max is i < j \<and> j < length buf"
    show "buf ! j = 0"
    proof (rule ccontr)
      assume "buf ! j \<noteq> 0"
      then have "j \<in> ?S" using j by (simp add: nonzero_idx_set)
      then have "j \<le> Max ?S" using ne by simp
      then show False using j hi by simp
    qed
  qed
  have "Min ?S \<le> Max ?S" using \<open>Min ?S \<in> ?S\<close> ne(2) by (rule Max_ge [rotated])
  then show "fold min is i \<le> fold max is i" unfolding lo hi .
qed

lemma ga_chrom_lines_sound:
  assumes "ga_chrom_lines chrom buf (nonzero_idx buf) = Inr L"
    and "DataLine c a b v \<in> set L" "v \<noteq> 0"
  shows "c = chrom \<and> is_max_run buf 0 a b v"
proof -
  from assms(1,2) obtain i "is" where nz: "nonzero_idx buf = i # is"
    and L: "L = ga_scan chrom buf [fold min is i..<fold max is i + 1] 0 0 (fold max is i + 1)"
    by (auto simp: ga_chrom_lines_def Let_def split: if_splits list.splits)
  let ?lo = "fold min is i" and ?hi = "fold max is i"
  note b = nz_bounds [OF nz]
  have m: "DataLine c a b v \<in> set (ga_scan chrom buf [?lo..<?hi + 1] 0 0 (?hi + 1))"
    using assms(2) L by simp
  have a1: "?lo \<le> ?hi + 1" using b(4) by simp
  have a2: "?hi + 1 \<le> length buf" using b(1) by simp
  have a4: "0 < ?lo \<or> (?lo = 0 \<and> (0::real) = 0)" by auto
  have a5: "\<forall>j. 0 \<le> j \<and> j < ?lo \<longrightarrow> buf ! j = 0" using b(2) by simp
  have a6: "0 < (0::nat) \<longrightarrow> buf ! (0 - 1) \<noteq> 0" by simp
  have a7: "\<forall>j. ?hi + 1 \<le> j \<and> j < length buf \<longrightarrow> buf ! j = 0" using b(3) by simp
  show ?thesis
    by (rule ga_scan_sound [OF a1 a2 _ a4 a5 a6 a7 m assms(3)]) simp
qed

lemma nonzero_strands_lookup:
  "nonzero_strands d ss acc = Inr r \<Longrightarrow> map_of r s = Some v \<Longrightarrow>
   (\<exists>b. map_of d s = Some b \<and> v = nonzero_idx b) \<or> map_of acc s = Some v"
proof (induction ss arbitrary: acc)
  case Nil
  then show ?case by simp
next
  case (Cons t ss)
  from Cons.prems(1) obtain b where b: "map_of d t = Some b"
    and r: "nonzero_strands d ss (dict_set acc t (nonzero_idx b)) = Inr r"
    by (auto simp: dict_item_def split: option.splits sum.splits)
  from Cons.IH [OF r Cons.prems(2)] b show ?case
    by (auto simp: map_of_dict_set split: if_splits)
qed

lemma nonzero_of_lookup:
  "nonzero_of cs strands = Inr nz \<Longrightarrow> map_of nz c = Some d' \<Longrightarrow>
   \<exists>d. map_of cs c = Some d \<and> nonzero_strands d strands [] = Inr d'"
proof (induction cs arbitrary: nz)
  case Nil
  then show ?case by simp
next
  case (Cons p cs)
  obtain k d0 where p: "p = (k, d0)" by (cases p)
  from Cons.prems(1) obtain n0 rest where
    n0: "nonzero_strands d0 strands [] = Inr n0"
    and rest: "nonzero_of cs strands = Inr rest" and nz: "nz = (k, n0) # rest"
    by (auto simp: p split: sum.splits)
  show ?case
  proof (cases "c = k")
    case True
    then show ?thesis using Cons.prems(2) n0 by (simp add: nz p)
  next
    case False
    then have "map_of rest c = Some d'" using Cons.prems(2) by (simp add: nz)
    from Cons.IH [OF rest this] False show ?thesis by (simp add: p)
  qed
qed

lemma nonzero_of_keys: "nonzero_of cs strands = Inr nz \<Longrightarrow> map fst nz = map fst cs"
  by (induction cs strands arbitrary: nz rule: nonzero_of.induct) (auto split: sum.splits)

lemma nz_item_is_nonzero_idx:
  assumes "nonzero ga = Inr nz" "nz_item nz c s = Inr nzv" "buffer_of ga c s = Inr buf"
  shows "nzv = nonzero_idx buf"
proof -
  from assms(2) obtain d' where d': "map_of nz c = Some d'" "map_of d' s = Some nzv"
    by (auto simp: nz_item_def dict_item_def split: option.splits)
  from nonzero_of_lookup [OF assms(1) [unfolded nonzero_def] d'(1)] obtain d where
    d: "map_of (ga_chroms ga) c = Some d" "nonzero_strands d (ga_strands ga) [] = Inr d'"
    by blast
  from nonzero_strands_lookup [OF d(2) d'(2)] obtain b where
    b: "map_of d s = Some b" "nzv = nonzero_idx b" by auto
  have "buffer_of ga c s = Inr b" using d(1) b(1) by (simp add: buffer_of_def dict_item_def)
  then show ?thesis using assms(3) b(2) by simp
qed

lemma ga_chroms_lines_sound:
  assumes "nonzero ga = Inr nz"
    and "ga_chroms_lines ga strand nz chroms = Inr L"
    and "DataLine c a b v \<in> set L" "v \<noteq> 0"
  shows "\<exists>buf. buffer_of ga c strand = Inr buf \<and> is_max_run buf 0 a b v"
  using assms(2,3)
proof (induction chroms arbitrary: L)
  case Nil
  then show ?case by simp
next
  case (Cons ch chroms)
  from Cons.prems(1) obtain buf l1 l2 where
    buf: "buffer_of ga ch strand = Inr buf"
    and c1: "ga_buffer_lines nz ch strand buf = Inr l1"
    and l2: "ga_chroms_lines ga strand nz chroms = Inr l2" and L: "L = l1 @ l2"
    by (auto split: sum.splits)
  from Cons.prems(2) L consider (here) "DataLine c a b v \<in> set l1" | (later) "DataLine c a b v \<in> set l2"
    by auto
  then show ?case
  proof cases
    case here
    from c1 here obtain nzv where nzv: "nz_item nz ch strand = Inr nzv"
      and l1: "ga_chrom_lines ch buf nzv = Inr l1"
      by (auto simp: ga_buffer_lines_def split: if_splits sum.splits)
    have "nzv = nonzero_idx buf" by (rule nz_item_is_nonzero_idx [OF assms(1) nzv buf])
    with l1 have "ga_chrom_lines ch buf (nonzero_idx buf) = Inr l1" by simp
    from ga_chrom_lines_sound [OF this here assms(4)] buf show ?thesis by auto
  next
    case later
    from Cons.IH [OF l2 later] show ?thesis .
  qed
qed



lemma run_counts_sized: "length (run_counts roi) = nat (seg_len roi)"
  by (simp add: run_counts_def seg_len_def)

lemma runs_sized: "\<forall>roi. length (bam_counts bam_runs roi) = nat (seg_len roi)"
  by (simp add: bam_runs_def run_counts_sized)

lemma runs_window_starts: "window_starts 4 2 = [0, 2]"
proof -
  have "[0..<2] = [0, Suc 0]" by (simp add: upt_rec [of 0] upt_rec [of "Suc 0"])
  moreover have "(4 + 2 - 1) div 2 = (2::nat)" by simp
  ultimately show ?thesis by (simp add: window_starts_def)
qed

lemma runs_getitem:
  "bam_getitem bam_runs (GenomicSegment ''chrB'' 0 2 Plus) False = Inr [1, 1]"
  "bam_getitem bam_runs (GenomicSegment ''chrB'' 2 4 Plus) False = Inr [1, 1]"
  "bam_getitem bam_runs (GenomicSegment ''chrB'' 0 4 Plus) False = Inr [1, 1, 1, 1]"
  by (simp_all add: bam_getitem_def bam_runs_def run_counts_def upto_rec1)

lemma runs_windows: "window_lines c s e [1, 1] = Inr [DataLine c s e 1]"
  by (simp add: window_lines_def)

lemma runs_bedgraph:
  "bam_to_bedgraph bam_runs ''t'' Plus 2 []
     = Inr [TrackLine ''t'' [], DataLine ''chrB'' 0 2 1, DataLine ''chrB'' 2 4 1]"
proof -
  have l: "dict_item (bam_chr_lengths bam_runs) ''chrB'' = Inr 4"
    by (simp add: bam_runs_def dict_item_def)
  have c: "sort (bam_chroms bam_runs) = [''chrB'']" by (simp add: bam_runs_def)
  have m: "min (0 + 2) 4 = (2::nat)" "min (2 + 2) 4 = (4::nat)" by simp_all
  have w: "bam_windows_lines bam_runs ''chrB'' Plus 2 4 [0, 2]
      = Inr [DataLine ''chrB'' 0 2 1, DataLine ''chrB'' 2 4 1]"
    by (simp add: m runs_getitem runs_windows)
  have ch: "bam_chroms_lines bam_runs Plus 2 [''chrB'']
      = Inr [DataLine ''chrB'' 0 2 1, DataLine ''chrB'' 2 4 1]"
    using l runs_window_starts w by (simp del: bam_windows_lines.simps)
  show ?thesis
    by (simp add: bam_to_bedgraph_def bam_strands_def c ch track_line_def
          del: bam_chroms_lines.simps)
qed

text \<open>
  Claim C9, as stated, fails for the BAM-backed export: the chromosome is swept in
  windows of \<^verbatim>\<open>window_size\<close> positions and every window writes its own lines, so a run that
  crosses a window border is written in pieces. With four positions holding 1 and a
  window of 2, the lines are [0,2) and [2,4), and [0,2) is not a maximal run.
\<close>

theorem bedgraph_run_split_counterexample:
  "bam_to_bedgraph bam_runs ''t'' Plus 2 []
     = Inr [TrackLine ''t'' [], DataLine ''chrB'' 0 2 1, DataLine ''chrB'' 2 4 1]
   \<and> bam_getitem bam_runs (GenomicSegment ''chrB'' 0 4 Plus) False = Inr [1, 1, 1, 1]
   \<and> \<not> is_max_run [1, 1, 1, 1] 0 0 2 1"
  by (simp add: runs_bedgraph runs_getitem is_max_run_def)

text \<open>
  \<^verbatim>\<open>GenomeArray.to_bedgraph\<close> lacks the test \<^verbatim>\<open>if last_val > 0\<close> that the BAM-backed export
  has: it also writes the runs of zeros before and between the nonzero runs.
\<close>

lemma ga_bedgraph_zero_runs:
  "ga_to_bedgraph (arr1 [0, 0, 3, 3, 0, 5] False None) ''t'' Plus []
     = Inr [TrackLine ''t'' [], DataLine ''chrA'' 0 2 0, DataLine ''chrA'' 2 4 3,
            DataLine ''chrA'' 4 5 0, DataLine ''chrA'' 5 6 5]"
proof -
  have u: "[0..<6] = [0, 1, 2, 3, 4, 5]"
    by (simp add: upt_conv_Cons)
  have nzi: "nonzero_idx [0, 0, 3, 3, 0, 5] = [2, 3, 5]"
    by (simp add: nonzero_idx_def u)
  have nz: "nonzero (arr1 [0, 0, 3, 3, 0, 5] False None) = Inr [(''chrA'', [(Plus, [2, 3, 5])])]"
    by (simp add: nonzero_def arr1_def dict_item_def nzi)
  have b: "buffer_of (arr1 [0, 0, 3, 3, 0, 5] False None) ''chrA'' Plus = Inr [0, 0, 3, 3, 0, 5]"
    by (simp add: buffer_of_def arr1_def dict_item_def)
  have s: "ga_strands (arr1 [0, 0, 3, 3, 0, 5] False None) = [Plus]" by (simp add: arr1_def)
  have l: "ga_chrom_lines ''chrA'' [0, 0, 3, 3, 0, 5] [2, 3, 5]
      = Inr [DataLine ''chrA'' 0 2 0, DataLine ''chrA'' 2 4 3,
             DataLine ''chrA'' 4 5 0, DataLine ''chrA'' 5 6 5]"
    by (simp add: ga_chrom_lines_def upt_conv_Cons del: upt_Suc)
  show ?thesis
    by (simp add: ga_to_bedgraph_def s nz b l ga_buffer_lines_def nz_item_def dict_item_def
          track_line_def)
qed

text \<open>Every position with a positive count reaches the output, and the exports return.\<close>

lemma bam_windows_lines_complete:
  assumes "\<forall>roi. length (bam_counts bam roi) = nat (seg_len roi)"
    and "bam_windows_lines bam chrom strand w l starts = Inr L"
    and "\<forall>ms\<in>set starts. ms < l" and "ms \<in> set starts"
    and "bam_getitem bam (GenomicSegment chrom (int ms) (int (min (ms + w) l)) strand) False = Inr cs"
    and "\<forall>v\<in>set cs. 0 \<le> v" "i < length cs" "cs ! i > 0"
  shows "\<exists>a b. DataLine chrom a b (cs ! i) \<in> set L \<and> a \<le> ms + i \<and> ms + i < b
           \<and> is_max_run cs ms a b (cs ! i)"
  using assms(2,3,4)
proof (induction starts arbitrary: L)
  case Nil
  then show ?case by simp
next
  case (Cons m starts)
  let ?me = "min (m + w) l"
  from Cons.prems(1) obtain cs' l1 l2 where
    g: "bam_getitem bam (GenomicSegment chrom (int m) (int ?me) strand) False = Inr cs'"
    and w: "window_lines chrom m ?me cs' = Inr l1"
    and r: "bam_windows_lines bam chrom strand w l starts = Inr l2"
    and L: "L = l1 @ l2"
    by (auto simp: Let_def split: sum.splits)
  show ?case
  proof (cases "ms = m")
    case True
    then have c: "cs' = cs" using g assms(5) by simp
    have "m < l" using Cons.prems(2) by simp
    then have "m \<le> ?me" by simp
    moreover have "length cs = nat (int ?me - int m)"
      using bam_getitem_length [OF assms(1) g] c by (simp add: seg_len_def)
    ultimately have e: "?me = m + length cs" by linarith
    from window_lines_complete [OF e assms(6,7,8), of chrom] w c
    obtain a b where ab: "DataLine chrom a b (cs ! i) \<in> set l1" "a \<le> m + i" "m + i < b"
      by auto
    have "is_max_run cs m a b (cs ! i)"
      using window_lines_sound [OF w [unfolded c] e ab(1)] by simp
    with ab show ?thesis using L True by auto
  next
    case False
    then have "ms \<in> set starts" using Cons.prems(3) by simp
    from Cons.IH [OF r _ this] Cons.prems(2) L show ?thesis by auto
  qed
qed

lemma bam_chroms_lines_complete:
  assumes "\<forall>roi. length (bam_counts bam roi) = nat (seg_len roi)" "0 < w"
    and "bam_chroms_lines bam strand w chroms = Inr L"
    and "c \<in> set chroms" "dict_item (bam_chr_lengths bam) c = Inr l"
    and "ms \<in> set (window_starts l w)"
    and "bam_getitem bam (GenomicSegment c (int ms) (int (min (ms + w) l)) strand) False = Inr cs"
    and "\<forall>v\<in>set cs. 0 \<le> v" "i < length cs" "cs ! i > 0"
  shows "\<exists>a b. DataLine c a b (cs ! i) \<in> set L \<and> a \<le> ms + i \<and> ms + i < b
           \<and> is_max_run cs ms a b (cs ! i)"
  using assms(3,4)
proof (induction chroms arbitrary: L)
  case Nil
  then show ?case by simp
next
  case (Cons ch chroms)
  from Cons.prems(1) obtain l' l1 l2 where
    len: "dict_item (bam_chr_lengths bam) ch = Inr l'"
    and w: "bam_windows_lines bam ch strand w l' (window_starts l' w) = Inr l1"
    and r: "bam_chroms_lines bam strand w chroms = Inr l2"
    and L: "L = l1 @ l2"
    by (auto split: sum.splits)
  show ?case
  proof (cases "c = ch")
    case True
    then have ll: "l' = l" using len assms(5) by simp
    have lt: "\<forall>ms\<in>set (window_starts l w). ms < l" using window_starts_less [OF assms(2)] by blast
    from bam_windows_lines_complete [OF assms(1) w [unfolded ll True [symmetric]] lt assms(6,7,8,9,10)]
    show ?thesis using L by auto
  next
    case False
    then have "c \<in> set chroms" using Cons.prems(2) by simp
    from Cons.IH [OF r this] L show ?thesis by auto
  qed
qed

lemma bam_getitem_ok:
  assumes "seg_chrom roi \<in> set (bam_chroms bam)" "bam_normalize bam \<longrightarrow> bam_sum_op bam \<noteq> 0"
  shows "\<exists>cs. bam_getitem bam roi ro = Inr cs"
  using assms by (simp add: bam_getitem_def Let_def)

lemma window_lines_ok: "\<exists>L. window_lines c s e cs = Inr L"
  by (cases cs) (simp_all add: window_lines_def)

lemma bam_windows_lines_ok:
  assumes "chrom \<in> set (bam_chroms bam)" "bam_normalize bam \<longrightarrow> bam_sum_op bam \<noteq> 0"
  shows "\<exists>L. bam_windows_lines bam chrom strand w l starts = Inr L"
proof (induction starts)
  case Nil
  then show ?case by simp
next
  case (Cons m starts)
  let ?roi = "GenomicSegment chrom (int m) (int (min (m + w) l)) strand"
  have "seg_chrom ?roi \<in> set (bam_chroms bam)" using assms(1) by simp
  from bam_getitem_ok [OF this assms(2)] obtain cs where
    g: "bam_getitem bam ?roi False = Inr cs" by blast
  obtain l1 where w: "window_lines chrom m (min (m + w) l) cs = Inr l1"
    using window_lines_ok by blast
  from Cons.IH obtain l2 where "bam_windows_lines bam chrom strand w l starts = Inr l2" by blast
  then show ?case using g w by (simp add: Let_def)
qed

lemma bam_chroms_lines_ok:
  assumes "\<forall>c\<in>set chroms. c \<in> set (bam_chroms bam) \<and> (\<exists>l. dict_item (bam_chr_lengths bam) c = Inr l)"
    and "bam_normalize bam \<longrightarrow> bam_sum_op bam \<noteq> 0"
  shows "\<exists>L. bam_chroms_lines bam strand w chroms = Inr L"
  using assms(1)
proof (induction chroms)
  case Nil
  then show ?case by simp
next
  case (Cons ch chroms)
  then obtain l where l: "dict_item (bam_chr_lengths bam) ch = Inr l" and c: "ch \<in> set (bam_chroms bam)"
    by auto
  from bam_windows_lines_ok [OF c assms(2)] obtain l1 where
    "bam_windows_lines bam ch strand w l (window_starts l w) = Inr l1" by blast
  moreover from Cons obtain l2 where "bam_chroms_lines bam strand w chroms = Inr l2" by auto
  ultimately show ?case using l by simp
qed

lemma bam_strand_known: "strand \<in> set bam_strands"
  by (cases strand) (simp_all add: bam_strands_def)

lemma ga_scan_complete:
  assumes "x0 \<le> h" "g \<le> x0" "\<forall>j. g \<le> j \<and> j < x0 \<longrightarrow> buf ! j = lv" "g \<le> i" "i < h"
  shows "\<exists>a b. DataLine chrom a b (buf ! i) \<in> set (ga_scan chrom buf [x0..<h] lv g h)
           \<and> a \<le> i \<and> i < b"
  using assms
proof (induction "h - x0" arbitrary: x0 lv g)
  case 0
  then have "x0 = h" by simp
  then have "buf ! i = lv" using "0.prems" by auto
  then show ?case using "0.prems" \<open>x0 = h\<close> by auto
next
  case (Suc n)
  then have lt: "x0 < h" by simp
  then have u: "[x0..<h] = x0 # [Suc x0..<h]" by (simp add: upt_conv_Cons)
  have n: "n = h - Suc x0" using Suc.hyps(2) by simp
  show ?case
  proof (cases "buf ! x0 = lv")
    case True
    have inv: "\<forall>j. g \<le> j \<and> j < Suc x0 \<longrightarrow> buf ! j = lv"
      using Suc.prems(3) True by (auto simp: less_Suc_eq)
    have st: "ga_scan chrom buf [x0..<h] lv g h = ga_scan chrom buf [Suc x0..<h] lv g h"
      unfolding u using True by simp
    have "\<exists>a b. DataLine chrom a b (buf ! i) \<in> set (ga_scan chrom buf [Suc x0..<h] lv g h)
           \<and> a \<le> i \<and> i < b"
      by (rule Suc.hyps(1) [OF n _ _ inv Suc.prems(4,5)]) (use lt Suc.prems(2) in simp_all)
    then show ?thesis unfolding st .
  next
    case False
    have st: "set (ga_scan chrom buf [x0..<h] lv g h)
        = insert (DataLine chrom g x0 lv) (set (ga_scan chrom buf [Suc x0..<h] (buf ! x0) x0 h))"
      unfolding u using False by (simp add: Let_def)
    show ?thesis
    proof (cases "i < x0")
      case True
      then have "buf ! i = lv" using Suc.prems(3,4) by auto
      then have "DataLine chrom g x0 (buf ! i) \<in> set (ga_scan chrom buf [x0..<h] lv g h)"
        unfolding st by simp
      then show ?thesis using True Suc.prems(4) by blast
    next
      case i: False
      have inv: "\<forall>j. x0 \<le> j \<and> j < Suc x0 \<longrightarrow> buf ! j = buf ! x0"
        by (auto simp: less_Suc_eq_le)
      have "\<exists>a b. DataLine chrom a b (buf ! i)
             \<in> set (ga_scan chrom buf [Suc x0..<h] (buf ! x0) x0 h) \<and> a \<le> i \<and> i < b"
        by (rule Suc.hyps(1) [OF n _ _ inv _ Suc.prems(5)]) (use lt i in simp_all)
      then show ?thesis unfolding st by blast
    qed
  qed
qed

lemma ga_chrom_lines_complete:
  assumes "i < length buf" "buf ! i \<noteq> 0"
  shows "\<exists>L a b. ga_chrom_lines chrom buf (nonzero_idx buf) = Inr L
           \<and> DataLine chrom a b (buf ! i) \<in> set L \<and> a \<le> i \<and> i < b"
proof -
  have mem: "i \<in> set (nonzero_idx buf)" using assms by (simp add: nonzero_idx_set)
  then obtain k ks where nz: "nonzero_idx buf = k # ks" by (cases "nonzero_idx buf") auto
  let ?lo = "fold min ks k" and ?hi = "fold max ks k"
  note b = nz_bounds [OF nz]
  have lo: "?lo \<le> i"
  proof (rule ccontr)
    assume "\<not> ?lo \<le> i"
    then have "buf ! i = 0" using b(2) by simp
    then show False using assms(2) by simp
  qed
  have hi: "i < ?hi + 1"
  proof (rule ccontr)
    assume "\<not> i < ?hi + 1"
    then have "buf ! i = 0" using b(3) assms(1) by simp
    then show False using assms(2) by simp
  qed
  have L: "ga_chrom_lines chrom buf (nonzero_idx buf)
      = Inr (ga_scan chrom buf [?lo..<?hi + 1] 0 0 (?hi + 1))"
    by (simp add: ga_chrom_lines_def nz Let_def)
  have "\<exists>a b. DataLine chrom a b (buf ! i) \<in> set (ga_scan chrom buf [?lo..<?hi + 1] 0 0 (?hi + 1))
           \<and> a \<le> i \<and> i < b"
    by (rule ga_scan_complete) (use b(2,4) hi in simp_all)
  then show ?thesis using L by auto
qed

lemma ga_chroms_lines_complete:
  assumes "nonzero ga = Inr nz"
    and "ga_chroms_lines ga strand nz chroms = Inr L"
    and "c \<in> set chroms" "buffer_of ga c strand = Inr buf"
    and "sum_list buf > 0" "i < length buf" "buf ! i \<noteq> 0"
  shows "\<exists>a b. DataLine c a b (buf ! i) \<in> set L \<and> a \<le> i \<and> i < b"
  using assms(2,3)
proof (induction chroms arbitrary: L)
  case Nil
  then show ?case by simp
next
  case (Cons ch chroms)
  from Cons.prems(1) obtain buf' l1 l2 where
    buf': "buffer_of ga ch strand = Inr buf'"
    and c1: "ga_buffer_lines nz ch strand buf' = Inr l1"
    and l2: "ga_chroms_lines ga strand nz chroms = Inr l2" and L: "L = l1 @ l2"
    by (auto split: sum.splits)
  show ?case
  proof (cases "c = ch")
    case True
    then have bb: "buf' = buf" using buf' assms(4) by simp
    from c1 assms(5) obtain nzv where nzv: "nz_item nz ch strand = Inr nzv"
      and l1: "ga_chrom_lines ch buf nzv = Inr l1"
      unfolding bb by (auto simp: ga_buffer_lines_def split: sum.splits)
    have "nzv = nonzero_idx buf"
      by (rule nz_item_is_nonzero_idx [OF assms(1) nzv buf' [unfolded bb]])
    with l1 have "ga_chrom_lines ch buf (nonzero_idx buf) = Inr l1" by simp
    with ga_chrom_lines_complete [OF assms(6,7), of ch]
    obtain a b where "DataLine ch a b (buf ! i) \<in> set l1" "a \<le> i" "i < b" by auto
    then show ?thesis using L True by auto
  next
    case False
    then have "c \<in> set chroms" using Cons.prems(2) by simp
    from Cons.IH [OF l2 this] L show ?thesis by auto
  qed
qed

lemma nonzero_strands_other:
  "nonzero_strands d ss acc = Inr r \<Longrightarrow> s \<notin> set ss \<Longrightarrow> map_of r s = map_of acc s"
proof (induction ss arbitrary: acc)
  case Nil
  then show ?case by simp
next
  case (Cons t ss)
  from Cons.prems(1) obtain b where
    r: "nonzero_strands d ss (dict_set acc t (nonzero_idx b)) = Inr r"
    by (auto split: sum.splits)
  from Cons.IH [OF r] Cons.prems(2) show ?case by (simp add: map_of_dict_set)
qed

lemma nonzero_strands_present:
  "nonzero_strands d ss acc = Inr r \<Longrightarrow> s \<in> set ss \<Longrightarrow>
   \<exists>b. map_of d s = Some b \<and> map_of r s = Some (nonzero_idx b)"
proof (induction ss arbitrary: acc)
  case Nil
  then show ?case by simp
next
  case (Cons t ss)
  from Cons.prems(1) obtain b where b: "map_of d t = Some b"
    and r: "nonzero_strands d ss (dict_set acc t (nonzero_idx b)) = Inr r"
    by (auto simp: dict_item_def split: option.splits sum.splits)
  show ?case
  proof (cases "s \<in> set ss")
    case True
    from Cons.IH [OF r True] show ?thesis .
  next
    case False
    then have "s = t" using Cons.prems(2) by simp
    moreover have "map_of r s = map_of (dict_set acc t (nonzero_idx b)) s"
      by (rule nonzero_strands_other [OF r False])
    ultimately show ?thesis using b by (simp add: map_of_dict_set)
  qed
qed

lemma nonzero_of_present:
  "nonzero_of cs strands = Inr nz \<Longrightarrow> map_of cs c = Some d \<Longrightarrow>
   \<exists>d'. map_of nz c = Some d' \<and> nonzero_strands d strands [] = Inr d'"
proof (induction cs arbitrary: nz)
  case Nil
  then show ?case by simp
next
  case (Cons p cs)
  obtain k d0 where p: "p = (k, d0)" by (cases p)
  from Cons.prems(1) obtain n0 rest where
    n0: "nonzero_strands d0 strands [] = Inr n0"
    and rest: "nonzero_of cs strands = Inr rest" and nz: "nz = (k, n0) # rest"
    by (auto simp: p split: sum.splits)
  show ?case
  proof (cases "c = k")
    case True
    then show ?thesis using Cons.prems(2) n0 by (simp add: nz p)
  next
    case False
    then have "map_of cs c = Some d" using Cons.prems(2) by (simp add: p)
    from Cons.IH [OF rest this] False show ?thesis by (simp add: nz)
  qed
qed

lemma sum_list_all_zero: "\<forall>x\<in>set xs. x = (0::real) \<Longrightarrow> sum_list xs = 0"
  by (induction xs) simp_all

lemma nonzero_idx_of_positive_sum:
  assumes "sum_list buf > 0"
  shows "nonzero_idx buf \<noteq> []"
proof
  assume e: "nonzero_idx buf = []"
  have "\<forall>x\<in>set buf. x = 0"
  proof
    fix x assume "x \<in> set buf"
    then obtain i where i: "i < length buf" "buf ! i = x" by (auto simp: in_set_conv_nth)
    show "x = 0"
    proof (rule ccontr)
      assume "x \<noteq> 0"
      then have "i \<in> set (nonzero_idx buf)" using i by (simp add: nonzero_idx_set)
      then show False using e by simp
    qed
  qed
  then have "sum_list buf = 0" by (rule sum_list_all_zero)
  then show False using assms by simp
qed

lemma ga_buffer_lines_ok:
  assumes "nonzero ga = Inr nz" "strand \<in> set (ga_strands ga)" "c \<in> set (keys ga)"
  shows "\<exists>buf L. buffer_of ga c strand = Inr buf \<and> ga_buffer_lines nz c strand buf = Inr L"
proof -
  from assms(3) obtain d where d: "map_of (ga_chroms ga) c = Some d"
    by (cases "map_of (ga_chroms ga) c")
       (auto simp: keys_def dict_keys_def map_of_eq_None_iff)
  from nonzero_of_present [OF assms(1) [unfolded nonzero_def] d] obtain d' where
    d': "map_of nz c = Some d'" "nonzero_strands d (ga_strands ga) [] = Inr d'" by blast
  from nonzero_strands_present [OF d'(2) assms(2)] obtain b where
    b: "map_of d strand = Some b" "map_of d' strand = Some (nonzero_idx b)" by blast
  have buf: "buffer_of ga c strand = Inr b" using d b(1) by (simp add: buffer_of_def dict_item_def)
  have nzi: "nz_item nz c strand = Inr (nonzero_idx b)"
    using d'(1) b(2) by (simp add: nz_item_def dict_item_def)
  have "\<exists>L. ga_buffer_lines nz c strand b = Inr L"
  proof (cases "sum_list b > 0")
    case True
    then obtain k ks where "nonzero_idx b = k # ks"
      using nonzero_idx_of_positive_sum [OF True] by (cases "nonzero_idx b") auto
    then show ?thesis using True nzi by (simp add: ga_buffer_lines_def ga_chrom_lines_def Let_def)
  next
    case False
    then show ?thesis by (simp add: ga_buffer_lines_def)
  qed
  with buf show ?thesis by blast
qed

lemma ga_chroms_lines_ok:
  assumes "nonzero ga = Inr nz" "strand \<in> set (ga_strands ga)" "\<forall>c\<in>set chroms. c \<in> set (keys ga)"
  shows "\<exists>L. ga_chroms_lines ga strand nz chroms = Inr L"
  using assms(3)
proof (induction chroms)
  case Nil
  then show ?case by simp
next
  case (Cons ch chroms)
  then have "ch \<in> set (keys ga)" by simp
  from ga_buffer_lines_ok [OF assms(1,2) this] obtain buf l1 where
    "buffer_of ga ch strand = Inr buf" "ga_buffer_lines nz ch strand buf = Inr l1" by blast
  moreover from Cons obtain l2 where "ga_chroms_lines ga strand nz chroms = Inr l2" by auto
  ultimately show ?case by simp
qed

lemma runs_wellformed:
  "0 < (2::nat) \<and> (\<forall>c\<in>set (bam_chroms bam_runs). \<exists>l. dict_item (bam_chr_lengths bam_runs) c = Inr l)
   \<and> (bam_normalize bam_runs \<longrightarrow> bam_sum_op bam_runs \<noteq> 0)"
  by (simp add: bam_runs_def dict_item_def)

lemma runs_length: "dict_item (bam_chr_lengths bam_runs) ''chrB'' = Inr 4"
  by (simp add: bam_runs_def dict_item_def)

lemma gaps_nonzero:
  "nonzero (arr1 [0, 0, 3, 3, 0, 5] False None) = Inr [(''chrA'', [(Plus, [2, 3, 5])])]"
proof -
  have u: "[0..<6] = [0, 1, 2, 3, 4, 5]" by (simp add: upt_conv_Cons)
  have "nonzero_idx [0, 0, 3, 3, 0, 5] = [2, 3, 5]" by (simp add: nonzero_idx_def u)
  then show ?thesis by (simp add: nonzero_def arr1_def dict_item_def)
qed

lemma gaps_buffer:
  "buffer_of (arr1 [0, 0, 3, 3, 0, 5] False None) ''chrA'' Plus = Inr [0, 0, 3, 3, 0, 5]"
  by (simp add: buffer_of_def arr1_def dict_item_def)

text \<open>
  Claim C9, amended. Both exports begin with the track line whenever they return, and they
  return: the BAM-backed one for a positive window size when every chromosome has a length
  and the normalizing sum is not zero, the \<^verbatim>\<open>GenomeArray\<close> one for a strand of the array.

  In the BAM-backed export (with a mapping rule whose count vector has the length of the
  queried region) every data line has a positive value and is one run of adjacent
  positions holding that value in the window it was written from, maximal within that
  window; and every position with a positive count, in a window without negative counts,
  lies in a line of the output carrying its count, which is such a run of its own window.
  A run that crosses a window border is therefore written as one line per window.

  In the \<^verbatim>\<open>GenomeArray\<close> export every data line with a nonzero value is one maximal run of
  adjacent positions of the buffer holding that value; and every nonzero position of a
  buffer with a positive sum lies in a line of the output carrying its value, which is
  such a run. Runs of zeros between them are written too. Lines are 0-based half-open.
\<close>

theorem bedgraph_lines_are_runs:
  "(\<forall>bam t strand w kw out. bam_to_bedgraph bam t strand w kw = Inr out
      \<longrightarrow> (\<exists>ls. out = track_line t kw # ls))
   \<and> (\<forall>bam t strand w kw. 0 < w
        \<and> (\<forall>c\<in>set (bam_chroms bam). \<exists>l. dict_item (bam_chr_lengths bam) c = Inr l)
        \<and> (bam_normalize bam \<longrightarrow> bam_sum_op bam \<noteq> 0)
      \<longrightarrow> (\<exists>out. bam_to_bedgraph bam t strand w kw = Inr out))
   \<and> (\<forall>bam t strand w kw out c a b v.
        (\<forall>roi. length (bam_counts bam roi) = nat (seg_len roi))
        \<and> bam_to_bedgraph bam t strand w kw = Inr out \<and> DataLine c a b v \<in> set out
      \<longrightarrow> v > 0
          \<and> (\<exists>l ms cs. dict_item (bam_chr_lengths bam) c = Inr l \<and> ms \<in> set (window_starts l w)
                \<and> bam_getitem bam (GenomicSegment c (int ms) (int (min (ms + w) l)) strand) False
                    = Inr cs
                \<and> is_max_run cs ms a b v))
   \<and> (\<forall>bam t strand w kw out c l ms cs i.
        (\<forall>roi. length (bam_counts bam roi) = nat (seg_len roi))
        \<and> bam_to_bedgraph bam t strand w kw = Inr out
        \<and> c \<in> set (bam_chroms bam) \<and> dict_item (bam_chr_lengths bam) c = Inr l
        \<and> ms \<in> set (window_starts l w)
        \<and> bam_getitem bam (GenomicSegment c (int ms) (int (min (ms + w) l)) strand) False = Inr cs
        \<and> (\<forall>v\<in>set cs. 0 \<le> v) \<and> i < length cs \<and> cs ! i > 0
      \<longrightarrow> (\<exists>a b. DataLine c a b (cs ! i) \<in> set out \<and> a \<le> ms + i \<and> ms + i < b
                \<and> is_max_run cs ms a b (cs ! i)))
   \<and> (\<forall>ga t strand kw out. ga_to_bedgraph ga t strand kw = Inr out
      \<longrightarrow> (\<exists>ls. out = track_line t kw # ls))
   \<and> (\<forall>ga t strand kw nz. strand \<in> set (ga_strands ga) \<and> nonzero ga = Inr nz
      \<longrightarrow> (\<exists>out. ga_to_bedgraph ga t strand kw = Inr out))
   \<and> (\<forall>ga t strand kw out c a b v.
        ga_to_bedgraph ga t strand kw = Inr out \<and> DataLine c a b v \<in> set out \<and> v \<noteq> 0
      \<longrightarrow> (\<exists>buf. buffer_of ga c strand = Inr buf \<and> is_max_run buf 0 a b v))
   \<and> (\<forall>ga t strand kw out c buf i.
        ga_to_bedgraph ga t strand kw = Inr out \<and> buffer_of ga c strand = Inr buf
        \<and> sum_list buf > 0 \<and> i < length buf \<and> buf ! i \<noteq> 0
      \<longrightarrow> (\<exists>a b. DataLine c a b (buf ! i) \<in> set out \<and> a \<le> i \<and> i < b
                \<and> is_max_run buf 0 a b (buf ! i)))"
proof (intro conjI allI impI)
  fix bam t strand w kw out
  assume "bam_to_bedgraph bam t strand w kw = Inr out"
  then show "\<exists>ls. out = track_line t kw # ls"
    by (auto simp: bam_to_bedgraph_def split: if_splits sum.splits)
next
  fix bam :: bam_array and t :: string and strand :: strand and w :: nat
    and kw :: "(string \<times> string) list"
  assume h: "0 < w
        \<and> (\<forall>c\<in>set (bam_chroms bam). \<exists>l. dict_item (bam_chr_lengths bam) c = Inr l)
        \<and> (bam_normalize bam \<longrightarrow> bam_sum_op bam \<noteq> 0)"
  then have "\<forall>c\<in>set (sort (bam_chroms bam)).
      c \<in> set (bam_chroms bam) \<and> (\<exists>l. dict_item (bam_chr_lengths bam) c = Inr l)"
    by simp
  from bam_chroms_lines_ok [OF this] h obtain L where
    "bam_chroms_lines bam strand w (sort (bam_chroms bam)) = Inr L" by blast
  then show "\<exists>out. bam_to_bedgraph bam t strand w kw = Inr out"
    using h by (simp add: bam_to_bedgraph_def bam_strand_known)
next
  fix bam t strand w kw out c a b v
  assume h: "(\<forall>roi. length (bam_counts bam roi) = nat (seg_len roi))
      \<and> bam_to_bedgraph bam t strand w kw = Inr out \<and> DataLine c a b v \<in> set out"
  then obtain ls where w: "0 < w"
    and ls: "bam_chroms_lines bam strand w (sort (bam_chroms bam)) = Inr ls"
    and out: "out = track_line t kw # ls"
    by (auto simp: bam_to_bedgraph_def split: if_splits sum.splits)
  have "DataLine c a b v \<in> set ls" using h out by (auto simp: track_line_def)
  from bam_chroms_lines_sound [OF _ w ls this] h
  show "v > 0" and "\<exists>l ms cs. dict_item (bam_chr_lengths bam) c = Inr l \<and> ms \<in> set (window_starts l w)
              \<and> bam_getitem bam (GenomicSegment c (int ms) (int (min (ms + w) l)) strand) False
                  = Inr cs
              \<and> is_max_run cs ms a b v"
    by blast+
next
  fix bam t strand w kw out c l ms cs i
  assume h: "(\<forall>roi. length (bam_counts bam roi) = nat (seg_len roi))
        \<and> bam_to_bedgraph bam t strand w kw = Inr out
        \<and> c \<in> set (bam_chroms bam) \<and> dict_item (bam_chr_lengths bam) c = Inr l
        \<and> ms \<in> set (window_starts l w)
        \<and> bam_getitem bam (GenomicSegment c (int ms) (int (min (ms + w) l)) strand) False = Inr cs
        \<and> (\<forall>v\<in>set cs. 0 \<le> v) \<and> i < length cs \<and> cs ! i > 0"
  then obtain ls where w: "0 < w"
    and ls: "bam_chroms_lines bam strand w (sort (bam_chroms bam)) = Inr ls"
    and out: "out = track_line t kw # ls"
    by (auto simp: bam_to_bedgraph_def split: if_splits sum.splits)
  have c: "c \<in> set (sort (bam_chroms bam))" using h by simp
  have "\<exists>a b. DataLine c a b (cs ! i) \<in> set ls \<and> a \<le> ms + i \<and> ms + i < b
          \<and> is_max_run cs ms a b (cs ! i)"
    by (rule bam_chroms_lines_complete [OF _ w ls c]) (use h in blast)+
  then show "\<exists>a b. DataLine c a b (cs ! i) \<in> set out \<and> a \<le> ms + i \<and> ms + i < b
          \<and> is_max_run cs ms a b (cs ! i)"
    using out by auto
next
  fix ga t strand kw out
  assume "ga_to_bedgraph ga t strand kw = Inr out"
  then show "\<exists>ls. out = track_line t kw # ls"
    by (auto simp: ga_to_bedgraph_def split: if_splits sum.splits)
next
  fix ga :: genome_array and t :: string and strand :: strand
    and kw :: "(string \<times> string) list" and nz
  assume h: "strand \<in> set (ga_strands ga) \<and> nonzero ga = Inr nz"
  then have "nonzero_of (ga_chroms ga) (ga_strands ga) = Inr nz" by (simp add: nonzero_def)
  then have "map fst nz = map fst (ga_chroms ga)" by (rule nonzero_of_keys)
  then have "set (sort (map fst nz)) = set (keys ga)"
    by (simp add: keys_def dict_keys_def)
  then have "\<forall>c\<in>set (sort (map fst nz)). c \<in> set (keys ga)" by blast
  from ga_chroms_lines_ok [OF _ _ this, of nz strand] h obtain L where
    "ga_chroms_lines ga strand nz (sort (map fst nz)) = Inr L" by blast
  then show "\<exists>out. ga_to_bedgraph ga t strand kw = Inr out"
    using h by (simp add: ga_to_bedgraph_def)
next
  fix ga t strand kw out c a b v
  assume h: "ga_to_bedgraph ga t strand kw = Inr out \<and> DataLine c a b v \<in> set out \<and> v \<noteq> 0"
  then obtain nz ls where nz: "nonzero ga = Inr nz"
    and ls: "ga_chroms_lines ga strand nz (sort (map fst nz)) = Inr ls"
    and out: "out = track_line t kw # ls"
    by (auto simp: ga_to_bedgraph_def split: if_splits sum.splits)
  have "DataLine c a b v \<in> set ls" using h out by (auto simp: track_line_def)
  from ga_chroms_lines_sound [OF nz ls this] h
  show "\<exists>buf. buffer_of ga c strand = Inr buf \<and> is_max_run buf 0 a b v" by blast
next
  fix ga t strand kw out c buf i
  assume h: "ga_to_bedgraph ga t strand kw = Inr out \<and> buffer_of ga c strand = Inr buf
        \<and> sum_list buf > 0 \<and> i < length buf \<and> buf ! i \<noteq> 0"
  then obtain nz ls where nz: "nonzero ga = Inr nz"
    and ls: "ga_chroms_lines ga strand nz (sort (map fst nz)) = Inr ls"
    and out: "out = track_line t kw # ls"
    by (auto simp: ga_to_bedgraph_def split: if_splits sum.splits)
  from h obtain d where "map_of (ga_chroms ga) c = Some d"
    by (auto simp: buffer_of_def dict_item_def split: option.splits)
  then have "(c, d) \<in> set (ga_chroms ga)" by (rule map_of_SomeD)
  then have "c \<in> fst ` set (ga_chroms ga)" by force
  moreover have "map fst nz = map fst (ga_chroms ga)"
    using nz unfolding nonzero_def by (rule nonzero_of_keys)
  ultimately have c: "c \<in> set (sort (map fst nz))" by simp
  have "\<exists>a b. DataLine c a b (buf ! i) \<in> set ls \<and> a \<le> i \<and> i < b"
    by (rule ga_chroms_lines_complete [OF nz ls c]) (use h in blast)+
  then obtain a b where ab: "DataLine c a b (buf ! i) \<in> set ls" "a \<le> i" "i < b" by blast
  from ga_chroms_lines_sound [OF nz ls ab(1)] h have "is_max_run buf 0 a b (buf ! i)" by auto
  with ab show "\<exists>a b. DataLine c a b (buf ! i) \<in> set out \<and> a \<le> i \<and> i < b
          \<and> is_max_run buf 0 a b (buf ! i)"
    using out by auto
qed

theorem bedgraph_lines_are_runs_witness:
  "(\<exists>ls. [TrackLine ''t'' [], DataLine ''chrB'' 0 2 1, DataLine ''chrB'' 2 4 1]
         = track_line ''t'' [] # ls)
   \<and> (\<exists>out. bam_to_bedgraph bam_runs ''t'' Plus 2 [] = Inr out)
   \<and> (0::real) < 1
   \<and> (\<exists>l ms cs. dict_item (bam_chr_lengths bam_runs) ''chrB'' = Inr l
          \<and> ms \<in> set (window_starts l 2)
          \<and> bam_getitem bam_runs (GenomicSegment ''chrB'' (int ms) (int (min (ms + 2) l)) Plus) False
              = Inr cs
          \<and> is_max_run cs ms 0 2 1)
   \<and> (\<exists>a b. DataLine ''chrB'' a b ([1, 1] ! 1)
          \<in> set [TrackLine ''t'' [], DataLine ''chrB'' 0 2 1, DataLine ''chrB'' 2 4 1]
        \<and> a \<le> 2 + 1 \<and> 2 + 1 < b \<and> is_max_run [1, 1] 2 a b ([1, 1] ! 1))
   \<and> (\<exists>ls. [TrackLine ''t'' [], DataLine ''chrA'' 0 2 0, DataLine ''chrA'' 2 4 3,
             DataLine ''chrA'' 4 5 0, DataLine ''chrA'' 5 6 5] = track_line ''t'' [] # ls)
   \<and> (\<exists>out. ga_to_bedgraph (arr1 [0, 0, 3, 3, 0, 5] False None) ''t'' Plus [] = Inr out)
   \<and> (\<exists>buf. buffer_of (arr1 [0, 0, 3, 3, 0, 5] False None) ''chrA'' Plus = Inr buf
          \<and> is_max_run buf 0 2 4 3)
   \<and> (\<exists>a b. DataLine ''chrA'' a b ([0, 0, 3, 3, 0, 5] ! 3)
          \<in> set [TrackLine ''t'' [], DataLine ''chrA'' 0 2 0, DataLine ''chrA'' 2 4 3,
                 DataLine ''chrA'' 4 5 0, DataLine ''chrA'' 5 6 5]
        \<and> a \<le> 3 \<and> 3 < b \<and> is_max_run [0, 0, 3, 3, 0, 5] 0 a b ([0, 0, 3, 3, 0, 5] ! 3))"
proof -
  let ?bout = "[TrackLine ''t'' [], DataLine ''chrB'' 0 2 1, DataLine ''chrB'' 2 4 1]"
  let ?ga = "arr1 [0, 0, 3, 3, 0, 5] False None"
  let ?gout = "[TrackLine ''t'' [], DataLine ''chrA'' 0 2 0, DataLine ''chrA'' 2 4 3,
                DataLine ''chrA'' 4 5 0, DataLine ''chrA'' 5 6 5]"
  note T = bedgraph_lines_are_runs
  have b0: "bam_to_bedgraph bam_runs ''t'' Plus 2 [] = Inr ?bout" by (rule runs_bedgraph)
  have g0: "ga_to_bedgraph ?ga ''t'' Plus [] = Inr ?gout" by (rule ga_bedgraph_zero_runs)
  have h3: "(\<forall>roi. length (bam_counts bam_runs roi) = nat (seg_len roi))
      \<and> bam_to_bedgraph bam_runs ''t'' Plus 2 [] = Inr ?bout
      \<and> DataLine ''chrB'' 0 2 1 \<in> set ?bout"
    using runs_sized b0 by simp
  have h4: "(\<forall>roi. length (bam_counts bam_runs roi) = nat (seg_len roi))
      \<and> bam_to_bedgraph bam_runs ''t'' Plus 2 [] = Inr ?bout
      \<and> ''chrB'' \<in> set (bam_chroms bam_runs) \<and> dict_item (bam_chr_lengths bam_runs) ''chrB'' = Inr 4
      \<and> 2 \<in> set (window_starts 4 2)
      \<and> bam_getitem bam_runs (GenomicSegment ''chrB'' (int 2) (int (min (2 + 2) 4)) Plus) False
          = Inr [1, 1]
      \<and> (\<forall>v\<in>set [1, 1 :: real]. 0 \<le> v) \<and> 1 < length [1, 1 :: real] \<and> [1, 1 :: real] ! 1 > 0"
    using runs_sized b0 runs_length runs_window_starts runs_getitem(2)
    by (simp add: bam_runs_def)
  have h6: "Plus \<in> set (ga_strands ?ga) \<and> nonzero ?ga = Inr [(''chrA'', [(Plus, [2, 3, 5])])]"
    using gaps_nonzero by (simp add: arr1_def)
  have h7: "ga_to_bedgraph ?ga ''t'' Plus [] = Inr ?gout \<and> DataLine ''chrA'' 2 4 3 \<in> set ?gout
      \<and> (3::real) \<noteq> 0"
    using g0 by simp
  have h8: "ga_to_bedgraph ?ga ''t'' Plus [] = Inr ?gout
      \<and> buffer_of ?ga ''chrA'' Plus = Inr [0, 0, 3, 3, 0, 5]
      \<and> sum_list [0, 0, 3, 3, 0, 5 :: real] > 0 \<and> 3 < length [0, 0, 3, 3, 0, 5 :: real]
      \<and> [0, 0, 3, 3, 0, 5 :: real] ! 3 \<noteq> 0"
    using g0 gaps_buffer by simp
  have c1: "\<exists>ls. ?bout = track_line ''t'' [] # ls" using T[THEN conjunct1, rule_format, OF b0] by simp
  have c2: "\<exists>out. bam_to_bedgraph bam_runs ''t'' Plus 2 [] = Inr out"
    using T[THEN conjunct2, THEN conjunct1, rule_format, OF runs_wellformed] by simp
  have c3: "(0::real) < 1
      \<and> (\<exists>l ms cs. dict_item (bam_chr_lengths bam_runs) ''chrB'' = Inr l
          \<and> ms \<in> set (window_starts l 2)
          \<and> bam_getitem bam_runs (GenomicSegment ''chrB'' (int ms) (int (min (ms + 2) l)) Plus) False
              = Inr cs
          \<and> is_max_run cs ms 0 2 1)"
    using T[THEN conjunct2, THEN conjunct2, THEN conjunct1, rule_format, OF h3] by simp
  have c4: "\<exists>a b. DataLine ''chrB'' a b ([1, 1] ! 1) \<in> set ?bout
        \<and> a \<le> 2 + 1 \<and> 2 + 1 < b \<and> is_max_run [1, 1] 2 a b ([1, 1] ! 1)"
    using T[THEN conjunct2, THEN conjunct2, THEN conjunct2, THEN conjunct1, rule_format, OF h4] by simp
  have c5: "\<exists>ls. ?gout = track_line ''t'' [] # ls" using T[THEN conjunct2, THEN conjunct2, THEN conjunct2, THEN conjunct2, THEN conjunct1, rule_format, OF g0] by simp
  have c6: "\<exists>out. ga_to_bedgraph ?ga ''t'' Plus [] = Inr out" using T[THEN conjunct2, THEN conjunct2, THEN conjunct2, THEN conjunct2, THEN conjunct2, THEN conjunct1, rule_format, OF h6] by simp
  have c7: "\<exists>buf. buffer_of ?ga ''chrA'' Plus = Inr buf \<and> is_max_run buf 0 2 4 3"
    using T[THEN conjunct2, THEN conjunct2, THEN conjunct2, THEN conjunct2, THEN conjunct2, THEN conjunct2, THEN conjunct1, rule_format, OF h7] by simp
  have c8: "\<exists>a b. DataLine ''chrA'' a b ([0, 0, 3, 3, 0, 5] ! 3) \<in> set ?gout
        \<and> a \<le> 3 \<and> 3 < b \<and> is_max_run [0, 0, 3, 3, 0, 5] 0 a b ([0, 0, 3, 3, 0, 5] ! 3)"
    using T[THEN conjunct2, THEN conjunct2, THEN conjunct2, THEN conjunct2, THEN conjunct2, THEN conjunct2, THEN conjunct2, rule_format, OF h8] by simp
  from c1 c2 c3 c4 c5 c6 c7 c8 show ?thesis by blast
qed

end
